theory Spec2Isabelle
  imports Main
begin

section \<open>Python values\<close>

text \<open>
  The agent framework passes dictionaries (\<^verbatim>\<open>dict[str, Any]\<close>) around: content blocks,
  tool inputs, tool results, request parameters. A dictionary is an association list in
  insertion order, whose keys are distinct as those of a Python dictionary are;
  \<open>dict_get\<close> is \<^verbatim>\<open>d.get(k)\<close>, \<open>dict_set\<close> is \<^verbatim>\<open>d[k] = v\<close> (the key keeps its place when it is
  already there, and is appended otherwise), \<open>dict_pop\<close> removes a key. A float is carried
  as mantissa and binary exponent; no code modelled here computes with one.
\<close>

datatype pyval =
    PyNone
  | PyBool bool
  | PyInt int
  | PyFloat int int
  | PyStr string
  | PyList "pyval list"
  | PyDict "(string \<times> pyval) list"

type_synonym pydict = "(string \<times> pyval) list"

definition dict_get :: "('k \<times> 'v) list \<Rightarrow> 'k \<Rightarrow> 'v option" where
  "dict_get d k = map_of d k"

fun dict_set :: "'k \<Rightarrow> 'v \<Rightarrow> ('k \<times> 'v) list \<Rightarrow> ('k \<times> 'v) list" where
  "dict_set k v [] = [(k, v)]"
| "dict_set k v (p # d) = (if fst p = k then (k, v) # d else p # dict_set k v d)"

definition dict_pop :: "'k \<Rightarrow> ('k \<times> 'v) list \<Rightarrow> ('k \<times> 'v) list" where
  "dict_pop k d = filter (\<lambda>p. fst p \<noteq> k) d"

text \<open>\<^verbatim>\<open>{**a, **b}\<close>: the entries of \<open>a\<close>, overwritten and extended by those of \<open>b\<close> in order.\<close>

definition dict_merge :: "('k \<times> 'v) list \<Rightarrow> ('k \<times> 'v) list \<Rightarrow> ('k \<times> 'v) list" where
  "dict_merge a b = fold (\<lambda>(k, v). dict_set k v) b a"

text \<open>
  A raised exception: its class, as far as an \<^verbatim>\<open>except\<close> clause of the code tells classes
  apart, and its message \<^verbatim>\<open>str(e)\<close>. All of them are instances of \<^verbatim>\<open>Exception\<close>; signals
  below \<^verbatim>\<open>BaseException\<close> only (cancellation, interpreter exit) are outside the model.
\<close>

datatype exn_class = IndexError | TypeError | KeyError | ValueError | OtherException

datatype exn = Raise exn_class string

section \<open>Message history (\<^verbatim>\<open>agents/utils/history_util.py\<close>)\<close>

text \<open>
  A message is the dictionary \<^verbatim>\<open>{"role": ..., "content": [...]}\<close>; the role is a Python
  string and the content a list of block dictionaries.
\<close>

record message =
  role :: string
  content :: "pydict list"

text \<open>
  The usage object of a backend response. The two cache counters are read with
  \<^verbatim>\<open>getattr(usage, ..., 0)\<close>: \<open>None\<close> is an absent attribute, and an attribute that is there
  holds an integer.
\<close>

record usage =
  input_tokens :: int
  output_tokens :: int
  cache_read_input_tokens :: "int option"
  cache_creation_input_tokens :: "int option"

text \<open>
  The fields of \<^verbatim>\<open>MessageHistory\<close> that its methods read or write. \<open>message_tokens\<close> is the
  list of \<^verbatim>\<open>(input_tokens, output_tokens)\<close> tuples. Token counts are Python integers; the
  constructor's fallback estimate \<^verbatim>\<open>len(self.system) / 4\<close> is a float and is outside this
  model, which covers the histories whose counter holds an integer.
\<close>

record MessageHistory =
  model :: string
  system :: string
  context_window_tokens :: int
  messages :: "message list"
  total_tokens :: int
  enable_caching :: bool
  message_tokens :: "(int \<times> int) list"

section \<open>Data of the tool dispatcher, the connections and the agent\<close>

text \<open>
  A tool use block of a backend response: \<^verbatim>\<open>call.id\<close>, \<^verbatim>\<open>call.name\<close>, \<^verbatim>\<open>call.input\<close>.
\<close>

record tool_use =
  call_id :: string
  call_name :: string
  call_input :: pydict

text \<open>
  The transport context (\<^verbatim>\<open>_rw_ctx\<close>), the client session context (\<^verbatim>\<open>_session_ctx\<close>) and
  the server are objects of the \<^verbatim>\<open>mcp\<close> library. A \<open>server\<close> says how each call on them
  ends for one configured server: \<open>None\<close> when it returns, \<open>Some e\<close> when it raises \<open>e\<close>.
  \<open>on_create_connection\<close> is \<^verbatim>\<open>create_mcp_connection(config)\<close>, which raises \<^verbatim>\<open>ValueError\<close> on
  a configuration it does not accept.
\<close>

record server =
  on_create_connection :: "exn option"
  on_create_rw_context :: "exn option"
  on_rw_enter :: "exn option"
  on_session_enter :: "exn option"
  on_initialize :: "exn option"
  on_list_tools :: "exn + string list"
  on_session_exit :: "exn option"
  on_rw_exit :: "exn option"

text \<open>
  The calls made on the library objects, whether they return or raise, and the lines
  printed, in order. \<open>PrintCleanupError\<close> holds the line that \<^verbatim>\<open>__aexit__\<close> prints;
  \<open>PrintSetupError\<close> holds the message of the exception in the line that
  \<^verbatim>\<open>setup_mcp_connections\<close> prints.
\<close>

datatype event =
    CreateRwContext
  | RwEnter
  | SessionEnter
  | Initialize
  | ListTools
  | SessionExit
  | RwExit
  | PrintCleanupError string
  | PrintSetupError string

text \<open>The three attributes of an \<^verbatim>\<open>MCPConnection\<close>: \<open>True\<close> for set, \<open>False\<close> for \<^verbatim>\<open>None\<close>.\<close>

record MCPConnection =
  session :: bool
  rw_ctx :: bool
  session_ctx :: bool

text \<open>\<^verbatim>\<open>ModelConfig\<close>, \<^verbatim>\<open>Tool\<close> and the attributes of \<^verbatim>\<open>Agent\<close> that request assembly reads.\<close>

record ModelConfig =
  config_model :: string
  config_max_tokens :: int
  config_temperature :: pyval
  config_context_window_tokens :: int

record Tool =
  tool_name :: string
  tool_description :: string
  tool_input_schema :: pydict

record Agent =
  agent_system :: string
  agent_tools :: "Tool list"
  agent_config :: ModelConfig
  agent_message_params :: pydict
  agent_history :: MessageHistory

text \<open>
  The keyword arguments of one \<^verbatim>\<open>client.messages.create\<close> call: those unpacked from
  \<^verbatim>\<open>params\<close>, and \<^verbatim>\<open>extra_headers\<close>.
\<close>

record request =
  params :: pydict
  extra_headers :: pydict

section \<open>Operations of the message history\<close>

text \<open>
  \<^verbatim>\<open>__init__\<close>: empty lists, and the counter set to the cost of the system prompt. That cost
  comes from the client (\<^verbatim>\<open>count_tokens(...).input_tokens - 1\<close>) and is a parameter here.
\<close>

definition MessageHistory_init :: "string \<Rightarrow> string \<Rightarrow> int \<Rightarrow> int \<Rightarrow> bool \<Rightarrow> MessageHistory" where
  "MessageHistory_init mdl sys ctx system_token caching =
     \<lparr>model = mdl, system = sys, context_window_tokens = ctx, messages = [],
      total_tokens = system_token, enable_caching = caching, message_tokens = []\<rparr>"

definition text_block :: "string \<Rightarrow> pydict" where
  "text_block s = [(''type'', PyStr ''text''), (''text'', PyStr s)]"

definition getattr0 :: "int option \<Rightarrow> int" where
  "getattr0 a = (case a of None \<Rightarrow> 0 | Some n \<Rightarrow> n)"

text \<open>
  \<^verbatim>\<open>add_message(role, content, usage)\<close>. The content is a string (\<open>Inl\<close>) or a list of
  blocks (\<open>Inr\<close>); \<^verbatim>\<open>usage\<close> is \<open>None\<close> or a usage object (which is truthy).
\<close>

definition add_message ::
  "MessageHistory \<Rightarrow> string \<Rightarrow> string + pydict list \<Rightarrow> usage option \<Rightarrow> MessageHistory" where
  "add_message h r c u =
     (let blocks = (case c of Inl s \<Rightarrow> [text_block s] | Inr bs \<Rightarrow> bs);
          h1 = h\<lparr>messages := messages h @ [\<lparr>role = r, content = blocks\<rparr>]\<rparr>
      in case u of
           None \<Rightarrow> h1
         | Some us \<Rightarrow>
             if r = ''assistant'' then
               (let total_input = input_tokens us + getattr0 (cache_read_input_tokens us)
                                    + getattr0 (cache_creation_input_tokens us);
                    current_turn_input = total_input - total_tokens h1
                in h1\<lparr>message_tokens := message_tokens h1 @ [(current_turn_input, output_tokens us)],
                      total_tokens := total_tokens h1 + (current_turn_input + output_tokens us)\<rparr>)
             else h1)"

subsection \<open>\<^verbatim>\<open>truncate\<close>\<close>

definition TRUNCATION_NOTICE_TOKENS :: int where
  "TRUNCATION_NOTICE_TOKENS = 25"

definition TRUNCATION_MESSAGE :: message where
  "TRUNCATION_MESSAGE =
     \<lparr>role = ''user'', content = [text_block ''[Earlier history has been truncated.]'']\<rparr>"

text \<open>\<^verbatim>\<open>xs.pop(0)\<close> raises \<^verbatim>\<open>IndexError\<close> on an empty list.\<close>

fun pop0 :: "'a list \<Rightarrow> exn + 'a \<times> 'a list" where
  "pop0 [] = Inl (Raise IndexError ''pop from empty list'')"
| "pop0 (x # xs) = Inr (x, xs)"

text \<open>The closure \<^verbatim>\<open>remove_message_pair\<close>: two pops of the messages, one of the costs.\<close>

definition remove_message_pair :: "MessageHistory \<Rightarrow> exn + MessageHistory" where
  "remove_message_pair h =
     (case pop0 (messages h) of
        Inl e \<Rightarrow> Inl e
      | Inr (m0, ms1) \<Rightarrow>
          (case pop0 ms1 of
             Inl e \<Rightarrow> Inl e
           | Inr (m1, ms2) \<Rightarrow>
               (let h1 = h\<lparr>messages := ms2\<rparr>
                in if message_tokens h1 \<noteq> [] then
                     (case pop0 (message_tokens h1) of
                        Inl e \<Rightarrow> Inl e
                      | Inr ((inp, out), ts) \<Rightarrow>
                          Inr (h1\<lparr>message_tokens := ts,
                                   total_tokens := total_tokens h1 - (inp + out)\<rparr>))
                   else Inr h1)))"

text \<open>
  The second half of the loop body: when messages and costs remain, the oldest message
  becomes the notice and the oldest cost gets the notice's input cost.
\<close>

definition rewrite_oldest :: "MessageHistory \<Rightarrow> MessageHistory" where
  "rewrite_oldest h =
     (if messages h \<noteq> [] \<and> message_tokens h \<noteq> [] then
        (case message_tokens h of
           [] \<Rightarrow> h
         | (original_input_tokens, original_output_tokens) # ts \<Rightarrow>
             h\<lparr>messages := (messages h)[0 := TRUNCATION_MESSAGE],
               message_tokens := (message_tokens h)[0 := (TRUNCATION_NOTICE_TOKENS, original_output_tokens)],
               total_tokens := total_tokens h + (TRUNCATION_NOTICE_TOKENS - original_input_tokens)\<rparr>)
      else h)"

definition loop_guard :: "MessageHistory \<Rightarrow> bool" where
  "loop_guard h \<longleftrightarrow>
     message_tokens h \<noteq> [] \<and> 2 \<le> length (messages h) \<and> context_window_tokens h < total_tokens h"

definition loop_body :: "MessageHistory \<Rightarrow> exn + MessageHistory" where
  "loop_body h = (case remove_message_pair h of Inl e \<Rightarrow> Inl e | Inr h1 \<Rightarrow> Inr (rewrite_oldest h1))"

function truncate_loop :: "MessageHistory \<Rightarrow> exn + MessageHistory" where
  "truncate_loop h =
     (if loop_guard h then
        (case loop_body h of Inl e \<Rightarrow> Inl e | Inr h' \<Rightarrow> truncate_loop h')
      else Inr h)"
  by pat_completeness auto
termination
proof (relation "measure (\<lambda>h. length (message_tokens h))")
  show "wf (measure (\<lambda>h. length (message_tokens h)))"
    by simp
next
  fix h h'
  assume g: "loop_guard h" and b: "loop_body h = Inr h'"
  from g obtain m0 m1 ms t ts where "messages h = m0 # m1 # ms" and "message_tokens h = t # ts"
    by (cases "messages h"; cases "tl (messages h)"; cases "message_tokens h")
       (auto simp: loop_guard_def)
  with b have "Suc (length (message_tokens h')) = length (message_tokens h)"
    by (cases t; cases ts) (auto simp: loop_body_def remove_message_pair_def rewrite_oldest_def)
  then show "(h', h) \<in> measure (\<lambda>h. length (message_tokens h))"
    by simp
qed

declare truncate_loop.simps [simp del]

definition truncate :: "MessageHistory \<Rightarrow> exn + MessageHistory" where
  "truncate h =
     (if total_tokens h \<le> context_window_tokens h then Inr h else truncate_loop h)"

text \<open>
  The same loop with a bound on the number of iterations: \<open>None\<close> when the guard still
  holds after \<open>n\<close> runs of the body.
\<close>

fun loop_fuel :: "nat \<Rightarrow> MessageHistory \<Rightarrow> (exn + MessageHistory) option" where
  "loop_fuel n h =
     (if loop_guard h then
        (case n of
           0 \<Rightarrow> None
         | Suc m \<Rightarrow> (case loop_body h of Inl e \<Rightarrow> Some (Inl e) | Inr h' \<Rightarrow> loop_fuel m h'))
      else Some (Inr h))"

declare loop_fuel.simps [simp del]

subsection \<open>\<^verbatim>\<open>format_for_api\<close>\<close>

definition cache_control :: pyval where
  "cache_control = PyDict [(''type'', PyStr ''ephemeral'')]"

text \<open>\<^verbatim>\<open>{**block, "cache_control": {"type": "ephemeral"}}\<close>\<close>

definition mark_block :: "pydict \<Rightarrow> pydict" where
  "mark_block block = dict_set ''cache_control'' cache_control block"

text \<open>
  The value that \<^verbatim>\<open>format_for_api\<close> returns: a new list of new message dictionaries, and
  for the last one a new list of marked copies of the last persisted message's blocks.
\<close>

definition format_for_api :: "MessageHistory \<Rightarrow> message list" where
  "format_for_api h =
     (let result = map (\<lambda>m. \<lparr>role = role m, content = content m\<rparr>) (messages h)
      in if enable_caching h \<and> messages h \<noteq> [] then
           result[length result - 1 :=
             (result ! (length result - 1))\<lparr>content := map mark_block (content (last (messages h)))\<rparr>]
         else result)"

text \<open>
  Whether \<^verbatim>\<open>format_for_api\<close> leaves the persisted messages alone depends on which objects
  its result shares with them, so the method is modelled a second time on a store of
  mutable objects. An address is an index into the store; a message dictionary holds
  its role and the address of its content list; a content list holds its blocks. The
  attribute \<^verbatim>\<open>self.messages\<close> is a list of addresses of message dictionaries.
\<close>

datatype hobj = MsgDict string nat | BlockList "pydict list"

type_synonym store = "hobj list"

definition alloc :: "store \<Rightarrow> hobj \<Rightarrow> store \<times> nat" where
  "alloc st obj = (st @ [obj], length st)"

definition get_msg :: "store \<Rightarrow> nat \<Rightarrow> (string \<times> nat) option" where
  "get_msg st a =
     (if a < length st then (case st ! a of MsgDict r c \<Rightarrow> Some (r, c) | BlockList bs \<Rightarrow> None)
      else None)"

definition get_blocks :: "store \<Rightarrow> nat \<Rightarrow> pydict list option" where
  "get_blocks st a =
     (if a < length st then (case st ! a of MsgDict r c \<Rightarrow> None | BlockList bs \<Rightarrow> Some bs)
      else None)"

text \<open>
  The list comprehension \<^verbatim>\<open>[{"role": m["role"], "content": m["content"]} for m in ...]\<close>:
  each step allocates a dictionary that holds the same role and the same content
  address as the persisted one.
\<close>

fun copy_messages :: "store \<Rightarrow> nat list \<Rightarrow> (store \<times> nat list) option" where
  "copy_messages st [] = Some (st, [])"
| "copy_messages st (m # ms) =
     (case get_msg st m of
        None \<Rightarrow> None
      | Some (r, c) \<Rightarrow>
          (let (st1, a) = alloc st (MsgDict r c)
           in case copy_messages st1 ms of
                None \<Rightarrow> None
              | Some (st2, as) \<Rightarrow> Some (st2, a # as)))"

text \<open>
  The whole method on the store. The assignment \<^verbatim>\<open>result[-1]["content"] = [...]\<close> writes
  the content field of the dictionary at the last address of \<open>result\<close>. \<open>None\<close> stands
  for a lookup of an address that holds no object of the expected kind, which Python
  references cannot produce.
\<close>

definition format_for_api_store :: "store \<Rightarrow> nat list \<Rightarrow> bool \<Rightarrow> (store \<times> nat list) option" where
  "format_for_api_store st self_messages caching =
     (case copy_messages st self_messages of
        None \<Rightarrow> None
      | Some (st1, result) \<Rightarrow>
          if caching \<and> self_messages \<noteq> [] then
            (case get_msg st1 (last self_messages) of
               None \<Rightarrow> None
             | Some (r, c) \<Rightarrow>
                 (case get_blocks st1 c of
                    None \<Rightarrow> None
                  | Some blocks \<Rightarrow>
                      (let (st2, a) = alloc st1 (BlockList (map mark_block blocks))
                       in case get_msg st2 (last result) of
                            None \<Rightarrow> None
                          | Some (r', c') \<Rightarrow> Some (st2[last result := MsgDict r' a], result))))
          else Some (st1, result))"

text \<open>The messages that a list of addresses denotes in a store.\<close>

fun deref_messages :: "store \<Rightarrow> nat list \<Rightarrow> message list option" where
  "deref_messages st [] = Some []"
| "deref_messages st (a # as) =
     (case get_msg st a of
        None \<Rightarrow> None
      | Some (r, c) \<Rightarrow>
          (case get_blocks st c of
             None \<Rightarrow> None
           | Some bs \<Rightarrow>
               (case deref_messages st as of
                  None \<Rightarrow> None
                | Some ms \<Rightarrow> Some (\<lparr>role = r, content = bs\<rparr> # ms))))"

section \<open>Tool execution (\<^verbatim>\<open>agents/utils/tool_util.py\<close>)\<close>

text \<open>
  What \<^verbatim>\<open>await tool.execute(**input)\<close> does: it returns a string (\<^verbatim>\<open>execute\<close> is declared
  \<^verbatim>\<open>-> str\<close>, and \<^verbatim>\<open>str\<close> of a string is that string) or raises, and it may change the world
  \<open>'w\<close> outside the agent (files, remote servers) on the way.
\<close>

type_synonym 'w tool = "pydict \<Rightarrow> 'w \<Rightarrow> (exn + string) \<times> 'w"

definition tool_result :: "string \<Rightarrow> pydict" where
  "tool_result i = [(''type'', PyStr ''tool_result''), (''tool_use_id'', PyStr i)]"

definition quoted :: "string \<Rightarrow> string" where
  "quoted s = [CHR 0x27] @ s @ [CHR 0x27]"

text \<open>
  \<^verbatim>\<open>_execute_single_tool\<close>. The \<^verbatim>\<open>try\<close> block looks the tool up (\<^verbatim>\<open>KeyError\<close> when the name
  is not a key) and executes it; the first handler takes every \<^verbatim>\<open>KeyError\<close> that leaves
  the block, the second every other exception.
\<close>

definition try_execute :: "tool_use \<Rightarrow> (string \<rightharpoonup> 'w tool) \<Rightarrow> 'w \<Rightarrow> (exn + string) \<times> 'w" where
  "try_execute call tool_dict w =
     (case tool_dict (call_name call) of
        None \<Rightarrow> (Inl (Raise KeyError (quoted (call_name call))), w)
      | Some t \<Rightarrow> t (call_input call) w)"

definition execute_single_tool ::
  "tool_use \<Rightarrow> (string \<rightharpoonup> 'w tool) \<Rightarrow> 'w \<Rightarrow> (exn + pydict) \<times> 'w" where
  "execute_single_tool call tool_dict w =
     (let response = tool_result (call_id call);
          (outcome, w') = try_execute call tool_dict w
      in (case outcome of
            Inr result \<Rightarrow> Inr (dict_set ''content'' (PyStr result) response)
          | Inl (Raise cls msg) \<Rightarrow>
              if cls = KeyError then
                Inr (dict_set ''is_error'' (PyBool True)
                      (dict_set ''content''
                         (PyStr (''Tool '' @ quoted (call_name call) @ '' not found'')) response))
              else
                Inr (dict_set ''is_error'' (PyBool True)
                      (dict_set ''content'' (PyStr (''Error executing tool: '' @ msg)) response)),
          w'))"

text \<open>
  \<^verbatim>\<open>asyncio.gather\<close>: the tasks finish in some order, here the order of their completion
  times \<open>finish_time\<close>, each one running on the world the earlier ones left; the outcomes
  are returned in the order of the tasks, and the first exception raised, if any, is
  propagated.
\<close>

definition run_tasks ::
  "nat list \<Rightarrow> ('w \<Rightarrow> (exn + 'a) \<times> 'w) list \<Rightarrow> 'w \<Rightarrow> (nat \<times> (exn + 'a)) list \<times> 'w" where
  "run_tasks order tasks w =
     fold (\<lambda>i (finished, w). let (r, w') = (tasks ! i) w in (finished @ [(i, r)], w'))
       order ([], w)"

fun collect :: "(exn + 'a) list \<Rightarrow> exn + 'a list" where
  "collect [] = Inr []"
| "collect (Inl e # rs) = Inl e"
| "collect (Inr x # rs) = (case collect rs of Inl e \<Rightarrow> Inl e | Inr xs \<Rightarrow> Inr (x # xs))"

definition gather ::
  "(nat \<Rightarrow> nat) \<Rightarrow> ('w \<Rightarrow> (exn + 'a) \<times> 'w) list \<Rightarrow> 'w \<Rightarrow> (exn + 'a list) \<times> 'w" where
  "gather finish_time tasks w =
     (let order = sort_key finish_time [0..<length tasks];
          (finished, w') = run_tasks order tasks w
      in (case collect (map snd finished) of
            Inl e \<Rightarrow> Inl e
          | Inr _ \<Rightarrow> collect (map snd (sort_key fst finished)),
          w'))"

text \<open>The list comprehension of the sequential mode awaits one call after the other.\<close>

fun execute_sequential ::
  "tool_use list \<Rightarrow> (string \<rightharpoonup> 'w tool) \<Rightarrow> 'w \<Rightarrow> (exn + pydict list) \<times> 'w" where
  "execute_sequential [] tool_dict w = (Inr [], w)"
| "execute_sequential (call # calls) tool_dict w =
     (let (r, w1) = execute_single_tool call tool_dict w
      in case r of
           Inl e \<Rightarrow> (Inl e, w1)
         | Inr x \<Rightarrow>
             (let (rs, w2) = execute_sequential calls tool_dict w1
              in (case rs of Inl e \<Rightarrow> Inl e | Inr xs \<Rightarrow> Inr (x # xs), w2)))"

definition execute_tools ::
  "(nat \<Rightarrow> nat) \<Rightarrow> tool_use list \<Rightarrow> (string \<rightharpoonup> 'w tool) \<Rightarrow> bool \<Rightarrow> 'w \<Rightarrow> (exn + pydict list) \<times> 'w" where
  "execute_tools finish_time tool_calls tool_dict parallel w =
     (if parallel then
        gather finish_time (map (\<lambda>call. execute_single_tool call tool_dict) tool_calls) w
      else execute_sequential tool_calls tool_dict w)"

section \<open>Connections to MCP servers (\<^verbatim>\<open>agents/utils/connections.py\<close>)\<close>

definition MCPConnection_init :: MCPConnection where
  "MCPConnection_init = \<lparr>session = False, rw_ctx = False, session_ctx = False\<rparr>"

text \<open>
  \<^verbatim>\<open>__aenter__\<close>: four awaited calls in a row with no handler around them, so the first one
  that raises ends the method with its exception.
\<close>

definition aenter :: "server \<Rightarrow> MCPConnection \<Rightarrow> exn option \<times> MCPConnection \<times> event list" where
  "aenter sv c =
     (case on_create_rw_context sv of
        Some e \<Rightarrow> (Some e, c, [CreateRwContext])
      | None \<Rightarrow>
          (let c1 = c\<lparr>rw_ctx := True\<rparr>
           in case on_rw_enter sv of
                Some e \<Rightarrow> (Some e, c1, [CreateRwContext, RwEnter])
              | None \<Rightarrow>
                  (let c2 = c1\<lparr>session_ctx := True\<rparr>
                   in case on_session_enter sv of
                        Some e \<Rightarrow> (Some e, c2, [CreateRwContext, RwEnter, SessionEnter])
                      | None \<Rightarrow>
                          (let c3 = c2\<lparr>session := True\<rparr>
                           in case on_initialize sv of
                                Some e \<Rightarrow>
                                  (Some e, c3, [CreateRwContext, RwEnter, SessionEnter, Initialize])
                              | None \<Rightarrow>
                                  (None, c3, [CreateRwContext, RwEnter, SessionEnter, Initialize])))))"

text \<open>The \<^verbatim>\<open>try\<close> block of \<^verbatim>\<open>__aexit__\<close>: both releases in one block.\<close>

definition aexit_try :: "server \<Rightarrow> MCPConnection \<Rightarrow> exn option \<times> event list" where
  "aexit_try sv c =
     (let (r1, ev1) = (if session_ctx c then (on_session_exit sv, [SessionExit]) else (None, []))
      in case r1 of
           Some e \<Rightarrow> (Some e, ev1)
         | None \<Rightarrow> (if rw_ctx c then (on_rw_exit sv, ev1 @ [RwExit]) else (None, ev1)))"

text \<open>\<^verbatim>\<open>__aexit__\<close>: the handler prints, the \<^verbatim>\<open>finally\<close> clause clears the attributes.\<close>

definition aexit :: "server \<Rightarrow> MCPConnection \<Rightarrow> MCPConnection \<times> event list" where
  "aexit sv c =
     (let (r, ev) = aexit_try sv c
      in (c\<lparr>session := False, session_ctx := False, rw_ctx := False\<rparr>,
          case r of
            None \<Rightarrow> ev
          | Some (Raise cls msg) \<Rightarrow> ev @ [PrintCleanupError (''Error during cleanup: '' @ msg)]))"

text \<open>
  \<^verbatim>\<open>AsyncExitStack.enter_async_context(cm)\<close> of \<^verbatim>\<open>contextlib\<close> awaits \<^verbatim>\<open>cm.__aenter__()\<close> and
  pushes \<^verbatim>\<open>cm.__aexit__\<close> only when that call has returned. An entry of the stack is the
  index of the server with its connection; closing the stack exits the entries, the
  last one pushed first.
\<close>

type_synonym exit_stack = "(nat \<times> server \<times> MCPConnection) list"

definition enter_async_context ::
  "exit_stack \<Rightarrow> nat \<Rightarrow> server \<Rightarrow> MCPConnection \<Rightarrow> exn option \<times> exit_stack \<times> event list" where
  "enter_async_context stack i sv c =
     (case aenter sv c of
        (Some e, c', ev) \<Rightarrow> (Some e, stack, ev)
      | (None, c', ev) \<Rightarrow> (None, (i, sv, c') # stack, ev))"

fun aclose :: "exit_stack \<Rightarrow> (nat \<times> event) list" where
  "aclose [] = []"
| "aclose ((i, sv, c) # stack) = map (Pair i) (snd (aexit sv c)) @ aclose stack"

text \<open>
  One round of the loop of \<^verbatim>\<open>setup_mcp_connections\<close>: the body of its \<^verbatim>\<open>try\<close>, whose
  handler prints and goes on to the next server. It returns the names of the tools
  found, the stack and the events of server \<open>i\<close>.
\<close>

definition setup_one :: "exit_stack \<Rightarrow> nat \<Rightarrow> server \<Rightarrow> string list \<times> exit_stack \<times> event list" where
  "setup_one stack i sv =
     (case on_create_connection sv of
        Some (Raise cls msg) \<Rightarrow> ([], stack, [PrintSetupError msg])
      | None \<Rightarrow>
          (case enter_async_context stack i sv MCPConnection_init of
             (Some (Raise cls msg), stack', ev) \<Rightarrow> ([], stack', ev @ [PrintSetupError msg])
           | (None, stack', ev) \<Rightarrow>
               (case on_list_tools sv of
                  Inl (Raise cls msg) \<Rightarrow> ([], stack', ev @ [ListTools, PrintSetupError msg])
                | Inr names \<Rightarrow> (names, stack', ev @ [ListTools]))))"

fun setup_mcp_connections ::
  "server list \<Rightarrow> nat \<Rightarrow> exit_stack \<Rightarrow> (nat \<times> string) list \<times> exit_stack \<times> (nat \<times> event) list" where
  "setup_mcp_connections [] i stack = ([], stack, [])"
| "setup_mcp_connections (sv # svs) i stack =
     (let (names, stack1, ev) = setup_one stack i sv;
          (tools, stack2, evs) = setup_mcp_connections svs (Suc i) stack1
      in (map (Pair i) names @ tools, stack2, map (Pair i) ev @ evs))"

text \<open>
  The connections over one \<^verbatim>\<open>run_async\<close>: set up inside \<^verbatim>\<open>async with AsyncExitStack()\<close>,
  used by the agent loop, closed when the block is left. The result is every call made
  on the library objects of every server during the run.
\<close>

definition run_connections :: "server list \<Rightarrow> (nat \<times> event) list" where
  "run_connections svs =
     (let (tools, stack, evs) = setup_mcp_connections svs 0 [] in evs @ aclose stack)"

section \<open>The agent (\<^verbatim>\<open>agents/agent.py\<close>)\<close>

definition to_dict :: "Tool \<Rightarrow> pyval" where
  "to_dict t =
     PyDict [(''name'', PyStr (tool_name t)), (''description'', PyStr (tool_description t)),
             (''input_schema'', PyDict (tool_input_schema t))]"

definition message_value :: "message \<Rightarrow> pyval" where
  "message_value m =
     PyDict [(''role'', PyStr (role m)), (''content'', PyList (map PyDict (content m)))]"

text \<open>\<^verbatim>\<open>_prepare_message_params\<close>: a dictionary display that ends in \<^verbatim>\<open>**self.message_params\<close>.\<close>

definition computed_params :: "Agent \<Rightarrow> pydict" where
  "computed_params a =
     [(''model'', PyStr (config_model (agent_config a))),
      (''max_tokens'', PyInt (config_max_tokens (agent_config a))),
      (''temperature'', config_temperature (agent_config a)),
      (''system'', PyStr (agent_system a)),
      (''messages'', PyList (map message_value (format_for_api (agent_history a)))),
      (''tools'', PyList (map to_dict (agent_tools a)))]"

definition prepare_message_params :: "Agent \<Rightarrow> pydict" where
  "prepare_message_params a = dict_merge (computed_params a) (agent_message_params a)"

text \<open>
  The keyword arguments of \<^verbatim>\<open>client.messages.create(**params, extra_headers=merged_headers)\<close>
  as the loop assembles them. \<^verbatim>\<open>{**default_headers, **custom_headers}\<close> raises \<^verbatim>\<open>TypeError\<close>
  when \<^verbatim>\<open>custom_headers\<close> is not a mapping.
\<close>

definition default_headers :: pydict where
  "default_headers = [(''anthropic-beta'', PyStr ''code-execution-2025-05-22'')]"

definition build_request :: "Agent \<Rightarrow> exn + request" where
  "build_request a =
     (let params = prepare_message_params a
      in case dict_get params ''extra_headers'' of
           Some custom_headers \<Rightarrow>
             (case custom_headers of
                PyDict d \<Rightarrow>
                  Inr \<lparr>params = dict_pop ''extra_headers'' params,
                       extra_headers = dict_merge default_headers d\<rparr>
              | _ \<Rightarrow> Inl (Raise TypeError ''object is not a mapping''))
         | None \<Rightarrow> Inr \<lparr>params = params, extra_headers = default_headers\<rparr>)"

text \<open>
  The history over the life of an agent. \<^verbatim>\<open>_agent_loop\<close> appends the user's input and then,
  in each round, truncates, calls the backend, appends the response with its usage and,
  when the response holds tool use blocks, appends the tool results as a user message
  and goes round again; otherwise it returns, and the next run starts with the next
  input. \<open>at_loop_top h\<close>: \<open>h\<close> is the history at the top of the \<^verbatim>\<open>while\<close> loop, where
  \<^verbatim>\<open>truncate\<close> is called, in some sequence of runs in which every backend call returned.
\<close>

definition tool_calls :: "pydict list \<Rightarrow> pydict list" where
  "tool_calls blocks = filter (\<lambda>block. dict_get block ''type'' = Some (PyStr ''tool_use'')) blocks"

inductive at_loop_top :: "MessageHistory \<Rightarrow> bool" where
  first_run:
    "at_loop_top (add_message (MessageHistory_init mdl sys ctx system_token True)
                    ''user'' (Inl user_input) None)"
| tool_round:
    "at_loop_top h \<Longrightarrow> truncate h = Inr h1 \<Longrightarrow> tool_calls response_content \<noteq> [] \<Longrightarrow>
     at_loop_top (add_message (add_message h1 ''assistant'' (Inr response_content) (Some response_usage))
                    ''user'' (Inr tool_results) None)"
| next_run:
    "at_loop_top h \<Longrightarrow> truncate h = Inr h1 \<Longrightarrow> tool_calls response_content = [] \<Longrightarrow>
     at_loop_top (add_message (add_message h1 ''assistant'' (Inr response_content) (Some response_usage))
                    ''user'' (Inl user_input) None)"

text \<open>
  The shape of the history at the top of the loop: user and assistant messages in turn,
  with a user message first and a user message, the one still to be answered, last.
\<close>

fun alternating :: "message list \<Rightarrow> bool" where
  "alternating [] = False"
| "alternating [m] = (role m = ''user'')"
| "alternating (m # m' # ms) = (role m = ''user'' \<and> role m' = ''assistant'' \<and> alternating ms)"

section \<open>Dictionaries\<close>

lemma dict_get_dict_set:
  "dict_get (dict_set k v d) k' = (if k' = k then Some v else dict_get d k')"
  by (induction d) (auto simp: dict_get_def)

section \<open>Properties of \<^verbatim>\<open>truncate\<close>\<close>

text \<open>
  Under the guard both pops of the messages and the pop of the costs succeed, so one run
  of the loop body is the removal of the oldest pair and cost followed by the rewrite.
\<close>

lemma loop_body_guard:
  assumes "loop_guard h"
  shows "\<exists>m0 m1 ms inp out ts.
           messages h = m0 # m1 # ms \<and> message_tokens h = (inp, out) # ts \<and>
           loop_body h = Inr (rewrite_oldest (h\<lparr>messages := ms, message_tokens := ts,
                                 total_tokens := total_tokens h - (inp + out)\<rparr>))"
proof -
  from assms obtain m0 m1 ms t ts where "messages h = m0 # m1 # ms" and "message_tokens h = t # ts"
    by (cases "messages h"; cases "tl (messages h)"; cases "message_tokens h")
       (auto simp: loop_guard_def)
  then show ?thesis
    by (cases t) (simp add: loop_body_def remove_message_pair_def)
qed

lemma rewrite_oldest_fields:
  "context_window_tokens (rewrite_oldest h) = context_window_tokens h"
  "length (messages (rewrite_oldest h)) = length (messages h)"
  "length (message_tokens (rewrite_oldest h)) = length (message_tokens h)"
  by (auto simp: rewrite_oldest_def split: list.splits)

lemma loop_body_step:
  assumes "loop_guard h"
  shows "\<exists>h1. loop_body h = Inr h1 \<and>
           Suc (length (message_tokens h1)) = length (message_tokens h) \<and>
           length (messages h1) + 2 = length (messages h) \<and>
           context_window_tokens h1 = context_window_tokens h"
proof -
  from loop_body_guard [OF assms] obtain m0 m1 ms inp out ts where
    m: "messages h = m0 # m1 # ms" and t: "message_tokens h = (inp, out) # ts" and
    b: "loop_body h = Inr (rewrite_oldest (h\<lparr>messages := ms, message_tokens := ts,
                                 total_tokens := total_tokens h - (inp + out)\<rparr>))"
    by blast
  show ?thesis
    by (simp add: b rewrite_oldest_fields m t)
qed

text \<open>
  The loop returns, and a relation between the state before and the state after holds
  when it holds for no iteration and extends over one more iteration in front.
\<close>

lemma truncate_loop_rel:
  assumes base: "\<And>h. \<not> loop_guard h \<Longrightarrow> Q h h"
    and step: "\<And>h h1 h'. loop_guard h \<Longrightarrow> loop_body h = Inr h1 \<Longrightarrow>
                 truncate_loop h1 = Inr h' \<Longrightarrow> Q h1 h' \<Longrightarrow> Q h h'"
  shows "\<exists>h'. truncate_loop h = Inr h' \<and> Q h h'"
proof (induction h rule: truncate_loop.induct)
  case (1 h)
  show ?case
  proof (cases "loop_guard h")
    case False
    then have "truncate_loop h = Inr h"
      by (simp add: truncate_loop.simps [of h])
    with base [OF False] show ?thesis by simp
  next
    case True
    from loop_body_step [OF True] obtain h1 where b: "loop_body h = Inr h1" by blast
    from "1.IH" [OF True b] obtain h' where r: "truncate_loop h1 = Inr h'" and q: "Q h1 h'"
      by blast
    from True b r have "truncate_loop h = Inr h'"
      by (simp add: truncate_loop.simps [of h])
    moreover from step [OF True b r q] have "Q h h'" .
    ultimately show ?thesis by simp
  qed
qed

lemma truncate_loop_exit:
  "\<exists>h'. truncate_loop h = Inr h' \<and>
     (\<not> loop_guard h' \<and> context_window_tokens h' = context_window_tokens h
      \<and> length (message_tokens h') \<le> length (message_tokens h)
      \<and> (length (message_tokens h') = length (message_tokens h) \<longrightarrow> h' = h))"
proof (rule truncate_loop_rel)
  fix h :: MessageHistory
  assume "\<not> loop_guard h"
  then show "\<not> loop_guard h \<and> context_window_tokens h = context_window_tokens h
     \<and> length (message_tokens h) \<le> length (message_tokens h)
     \<and> (length (message_tokens h) = length (message_tokens h) \<longrightarrow> h = h)" by simp
next
  fix h h1 h'
  assume g: "loop_guard h" and b: "loop_body h = Inr h1"
    and q: "\<not> loop_guard h' \<and> context_window_tokens h' = context_window_tokens h1
     \<and> length (message_tokens h') \<le> length (message_tokens h1)
     \<and> (length (message_tokens h') = length (message_tokens h1) \<longrightarrow> h' = h1)"
  from loop_body_step [OF g] b have "Suc (length (message_tokens h1)) = length (message_tokens h)"
    and "context_window_tokens h1 = context_window_tokens h" by auto
  with q show "\<not> loop_guard h' \<and> context_window_tokens h' = context_window_tokens h
     \<and> length (message_tokens h') \<le> length (message_tokens h)
     \<and> (length (message_tokens h') = length (message_tokens h) \<longrightarrow> h' = h)"
    by auto
qed

text \<open>A history with at most one message more than twice its costs keeps that shape.\<close>

lemma truncate_loop_paired:
  "\<exists>h'. truncate_loop h = Inr h' \<and>
     (length (messages h) \<le> 2 * length (message_tokens h) + 1 \<longrightarrow>
      length (messages h') \<le> 2 * length (message_tokens h') + 1)"
proof (rule truncate_loop_rel)
  fix h :: MessageHistory
  show "length (messages h) \<le> 2 * length (message_tokens h) + 1 \<longrightarrow>
        length (messages h) \<le> 2 * length (message_tokens h) + 1" by simp
next
  fix h h1 h'
  assume g: "loop_guard h" and b: "loop_body h = Inr h1"
    and q: "length (messages h1) \<le> 2 * length (message_tokens h1) + 1 \<longrightarrow>
            length (messages h') \<le> 2 * length (message_tokens h') + 1"
  from loop_body_step [OF g] b have "Suc (length (message_tokens h1)) = length (message_tokens h)"
    and "length (messages h1) + 2 = length (messages h)" by auto
  with q show "length (messages h) \<le> 2 * length (message_tokens h) + 1 \<longrightarrow>
            length (messages h') \<le> 2 * length (message_tokens h') + 1"
    by arith
qed

lemma truncate_loop_equal_shape:
  "\<exists>h'. truncate_loop h = Inr h' \<and>
     (length (messages h) = 2 * length (message_tokens h) + 1 \<longrightarrow>
      length (messages h') = 2 * length (message_tokens h') + 1)"
proof (rule truncate_loop_rel)
  fix h :: MessageHistory
  show "length (messages h) = 2 * length (message_tokens h) + 1 \<longrightarrow>
        length (messages h) = 2 * length (message_tokens h) + 1" by simp
next
  fix h h1 h'
  assume g: "loop_guard h" and b: "loop_body h = Inr h1"
    and q: "length (messages h1) = 2 * length (message_tokens h1) + 1 \<longrightarrow>
            length (messages h') = 2 * length (message_tokens h') + 1"
  from loop_body_step [OF g] b have "Suc (length (message_tokens h1)) = length (message_tokens h)"
    and "length (messages h1) + 2 = length (messages h)" by auto
  with q show "length (messages h) = 2 * length (message_tokens h) + 1 \<longrightarrow>
            length (messages h') = 2 * length (message_tokens h') + 1"
    by arith
qed

text \<open>
  The counter after the loop, in terms of the state before it: the costs of the \<open>k\<close>
  entries removed, as they were recorded, are subtracted, and when the entry that is now
  the oldest was rewritten, the notice's cost replaces its recorded input cost.
\<close>

lemma truncate_loop_accounting:
  "\<exists>h'. truncate_loop h = Inr h' \<and>
     total_tokens h' =
       total_tokens h
       - sum_list (map (\<lambda>(i, out). i + out)
           (take (length (message_tokens h) - length (message_tokens h')) (message_tokens h)))
       + (if 0 < length (message_tokens h) - length (message_tokens h')
             \<and> messages h' \<noteq> [] \<and> message_tokens h' \<noteq> []
          then TRUNCATION_NOTICE_TOKENS
                 - fst (message_tokens h ! (length (message_tokens h) - length (message_tokens h')))
          else 0)"
proof (rule truncate_loop_rel)
  fix h :: MessageHistory
  show "total_tokens h =
       total_tokens h
       - sum_list (map (\<lambda>(i, out). i + out)
           (take (length (message_tokens h) - length (message_tokens h)) (message_tokens h)))
       + (if 0 < length (message_tokens h) - length (message_tokens h)
             \<and> messages h \<noteq> [] \<and> message_tokens h \<noteq> []
          then TRUNCATION_NOTICE_TOKENS
                 - fst (message_tokens h ! (length (message_tokens h) - length (message_tokens h)))
          else 0)"
    by simp
next
  fix h h1 h'
  assume g: "loop_guard h" and b: "loop_body h = Inr h1"
    and r: "truncate_loop h1 = Inr h'"
    and q: "total_tokens h' =
       total_tokens h1
       - sum_list (map (\<lambda>(i, out). i + out)
           (take (length (message_tokens h1) - length (message_tokens h')) (message_tokens h1)))
       + (if 0 < length (message_tokens h1) - length (message_tokens h')
             \<and> messages h' \<noteq> [] \<and> message_tokens h' \<noteq> []
          then TRUNCATION_NOTICE_TOKENS
                 - fst (message_tokens h1 ! (length (message_tokens h1) - length (message_tokens h')))
          else 0)"
  from loop_body_guard [OF g] b obtain m0 m1 ms inp out ts where
    m: "messages h = m0 # m1 # ms" and t: "message_tokens h = (inp, out) # ts" and
    h1: "h1 = rewrite_oldest (h\<lparr>messages := ms, message_tokens := ts,
                                 total_tokens := total_tokens h - (inp + out)\<rparr>)"
    by auto
  from truncate_loop_exit [of h1] r have
    le: "length (message_tokens h') \<le> length (message_tokens h1)" and
    same: "length (message_tokens h') = length (message_tokens h1) \<longrightarrow> h' = h1"
    by auto
  define k1 where "k1 = length (message_tokens h1) - length (message_tokens h')"
  show "total_tokens h' =
       total_tokens h
       - sum_list (map (\<lambda>(i, out). i + out)
           (take (length (message_tokens h) - length (message_tokens h')) (message_tokens h)))
       + (if 0 < length (message_tokens h) - length (message_tokens h')
             \<and> messages h' \<noteq> [] \<and> message_tokens h' \<noteq> []
          then TRUNCATION_NOTICE_TOKENS
                 - fst (message_tokens h ! (length (message_tokens h) - length (message_tokens h')))
          else 0)"
  proof (cases "ms = [] \<or> ts = []")
    case True
    then have e: "h1 = h\<lparr>messages := ms, message_tokens := ts,
                         total_tokens := total_tokens h - (inp + out)\<rparr>"
      by (auto simp: h1 rewrite_oldest_def)
    from True e have "\<not> loop_guard h1"
      by (auto simp: loop_guard_def)
    then have "truncate_loop h1 = Inr h1"
      by (simp add: truncate_loop.simps [of h1])
    with r have "h' = h1" by simp
    with True e t show ?thesis
      by auto
  next
    case False
    then obtain i1 o1 ts' m' ms' where ts: "ts = (i1, o1) # ts'" and ms: "ms = m' # ms'"
      by (cases ts; cases ms) auto
    have e: "h1 = h\<lparr>messages := TRUNCATION_MESSAGE # ms',
                    message_tokens := (TRUNCATION_NOTICE_TOKENS, o1) # ts',
                    total_tokens := total_tokens h - (inp + out) + (TRUNCATION_NOTICE_TOKENS - i1)\<rparr>"
      by (simp add: h1 rewrite_oldest_def ts ms)
    have k: "length (message_tokens h) - length (message_tokens h') = Suc k1"
      using le by (simp add: k1_def e t ts)
    show ?thesis
    proof (cases "k1 = 0")
      case True
      with le same have "h' = h1" by (simp add: k1_def)
      then show ?thesis
        using k True by (simp add: e t ts)
    next
      case False
      then obtain j where j: "k1 = Suc j" by (cases k1) auto
      from q have "total_tokens h' =
           total_tokens h1 - sum_list (map (\<lambda>(i, out). i + out) (take k1 (message_tokens h1)))
           + (if 0 < k1 \<and> messages h' \<noteq> [] \<and> message_tokens h' \<noteq> []
              then TRUNCATION_NOTICE_TOKENS - fst (message_tokens h1 ! k1) else 0)"
        by (simp add: k1_def)
      then show ?thesis
        using k j by (simp add: e t ts)
    qed
  qed
qed

lemma cost_sum_nonneg:
  "\<forall>(i, out) \<in> set ts. (0::int) \<le> i + out \<Longrightarrow> 0 \<le> sum_list (map (\<lambda>(i, out). i + out) (take k ts))"
proof (rule sum_list_nonneg)
  fix x assume a: "\<forall>(i, out) \<in> set ts. (0::int) \<le> i + out"
    and "x \<in> set (map (\<lambda>(i, out). i + out) (take k ts))"
  then obtain p where "p \<in> set (take k ts)" and "x = (\<lambda>(i, out). i + out) p" by auto
  with a show "0 \<le> x" by (auto dest: in_set_takeD)
qed

text \<open>
  Claim C1, as amended. \<^verbatim>\<open>truncate\<close> never raises, and for every history \<open>h\<close> with the
  history \<open>h'\<close> it leaves:
  \<^item> the counter is within the context window, or fewer than two messages remain, or no
    cost entry remains; for a history with at most one message more than twice its cost
    entries, as the agent loop builds them, the third case implies the second;
  \<^item> the counter after the call is the counter before it, minus the recorded costs of the
    \<open>k\<close> entries removed, plus the adjustment \<open>25 - input\<close> for the recorded input cost of
    the entry that is the oldest afterwards, when that entry was rewritten; so when no
    recorded cost is negative, the counter grows by at most that adjustment;
  \<^item> the call changes nothing when the counter is within the context window, and nothing
    when fewer than two messages are held.
\<close>

theorem truncate_budget:
  "\<exists>h'. truncate h = Inr h' \<and>
     (total_tokens h' \<le> context_window_tokens h' \<or> length (messages h') < 2
        \<or> message_tokens h' = []) \<and>
     (length (messages h) \<le> 2 * length (message_tokens h) + 1 \<longrightarrow>
        total_tokens h' \<le> context_window_tokens h' \<or> length (messages h') < 2) \<and>
     (let k = length (message_tokens h) - length (message_tokens h');
          adjustment =
            (if 0 < k \<and> messages h' \<noteq> [] \<and> message_tokens h' \<noteq> []
             then TRUNCATION_NOTICE_TOKENS - fst (message_tokens h ! k) else 0)
      in total_tokens h' =
           total_tokens h - sum_list (map (\<lambda>(i, out). i + out) (take k (message_tokens h)))
             + adjustment \<and>
         ((\<forall>(i, out) \<in> set (message_tokens h). 0 \<le> i + out) \<longrightarrow>
            total_tokens h' \<le> total_tokens h + adjustment)) \<and>
     (total_tokens h \<le> context_window_tokens h \<longrightarrow> h' = h) \<and>
     (length (messages h) < 2 \<longrightarrow> h' = h)"
proof (cases "total_tokens h \<le> context_window_tokens h")
  case True
  then have "truncate h = Inr h"
    by (simp add: truncate_def)
  with True show ?thesis
    by simp
next
  case False
  then have t: "truncate h = truncate_loop h"
    by (simp add: truncate_def)
  from truncate_loop_exit [of h] obtain h' where
    r: "truncate_loop h = Inr h'" and ng: "\<not> loop_guard h'" and
    c: "context_window_tokens h' = context_window_tokens h"
    by blast
  from ng have post: "total_tokens h' \<le> context_window_tokens h' \<or> length (messages h') < 2
        \<or> message_tokens h' = []"
    by (auto simp: loop_guard_def)
  from truncate_loop_paired [of h] r have
    "length (messages h) \<le> 2 * length (message_tokens h) + 1 \<longrightarrow>
     length (messages h') \<le> 2 * length (message_tokens h') + 1"
    by simp
  with post have paired: "length (messages h) \<le> 2 * length (message_tokens h) + 1 \<longrightarrow>
        total_tokens h' \<le> context_window_tokens h' \<or> length (messages h') < 2"
    by auto
  define k where "k = length (message_tokens h) - length (message_tokens h')"
  define adjustment where "adjustment =
            (if 0 < k \<and> messages h' \<noteq> [] \<and> message_tokens h' \<noteq> []
             then TRUNCATION_NOTICE_TOKENS - fst (message_tokens h ! k) else 0)"
  from truncate_loop_accounting [of h] r have acc: "total_tokens h' =
           total_tokens h - sum_list (map (\<lambda>(i, out). i + out) (take k (message_tokens h)))
             + adjustment"
    by (simp add: k_def adjustment_def)
  have mono: "(\<forall>(i, out) \<in> set (message_tokens h). 0 \<le> i + out) \<longrightarrow>
            total_tokens h' \<le> total_tokens h + adjustment"
  proof
    assume "\<forall>(i, out) \<in> set (message_tokens h). 0 \<le> i + out"
    then have "0 \<le> sum_list (map (\<lambda>(i, out). i + out) (take k (message_tokens h)))"
      by (rule cost_sum_nonneg)
    with acc show "total_tokens h' \<le> total_tokens h + adjustment"
      by simp
  qed
  have short: "length (messages h) < 2 \<longrightarrow> h' = h"
  proof
    assume "length (messages h) < 2"
    then have "\<not> loop_guard h"
      by (simp add: loop_guard_def)
    then have "truncate_loop h = Inr h"
      by (simp add: truncate_loop.simps [of h])
    with r show "h' = h" by simp
  qed
  from t r post paired acc mono short False show ?thesis
    by (simp add: Let_def k_def adjustment_def)
qed

text \<open>
  Claim C1 as stated fails. The system prompt costs 20 tokens and the window is 10; a
  user message, an assistant message whose usage reports 15 input and 2 output tokens,
  and two user messages are added. The history holds one cost entry, \<open>(-5, 2)\<close>, and
  counts 17. \<^verbatim>\<open>truncate\<close> removes the first two messages and the entry and stops, because no
  entry is left: the counter is 20, above the window and above its value before the
  call, two messages remain, and nothing was rewritten.
\<close>

theorem truncate_budget_counterexample:
  "let h = add_message (add_message (add_message (add_message
             (MessageHistory_init ''m'' ''s'' 10 20 True)
             ''user'' (Inl ''q1'') None)
             ''assistant'' (Inl ''a1'')
               (Some \<lparr>input_tokens = 15, output_tokens = 2,
                      cache_read_input_tokens = None, cache_creation_input_tokens = None\<rparr>))
             ''user'' (Inl ''q2'') None)
             ''user'' (Inl ''q3'') None
   in message_tokens h = [(- 5, 2)] \<and> total_tokens h = 17 \<and> context_window_tokens h = 10 \<and>
      (case truncate h of
         Inl e \<Rightarrow> False
       | Inr h' \<Rightarrow>
           \<not> (total_tokens h' \<le> context_window_tokens h' \<or> length (messages h') < 2) \<and>
           total_tokens h < total_tokens h' \<and>
           message_tokens h' = [] \<and> hd (messages h') \<noteq> TRUNCATION_MESSAGE)"
  by (simp add: add_message_def MessageHistory_init_def getattr0_def truncate_def
      truncate_loop.simps loop_guard_def loop_body_def remove_message_pair_def
      rewrite_oldest_def TRUNCATION_MESSAGE_def text_block_def)

text \<open>
  The theorem at a history of five messages and two cost entries over its window, and at
  a history of one message within its window.
\<close>

theorem truncate_budget_witness:
  "let h = \<lparr>model = ''m'', system = ''s'', context_window_tokens = 30,
            messages = [\<lparr>role = ''user'', content = [text_block ''q1'']\<rparr>,
                        \<lparr>role = ''assistant'', content = [text_block ''a1'']\<rparr>,
                        \<lparr>role = ''user'', content = [text_block ''q2'']\<rparr>,
                        \<lparr>role = ''assistant'', content = [text_block ''a2'']\<rparr>,
                        \<lparr>role = ''user'', content = [text_block ''q3'']\<rparr>],
            total_tokens = 40, enable_caching = True, message_tokens = [(10, 5), (20, 5)]\<rparr>;
       g = h\<lparr>total_tokens := 30, messages := [\<lparr>role = ''user'', content = [text_block ''q1'']\<rparr>],
              message_tokens := []\<rparr>
   in length (messages h) \<le> 2 * length (message_tokens h) + 1 \<and>
      (\<forall>(i, out) \<in> set (message_tokens h). 0 \<le> i + out) \<and>
      (\<exists>h'. truncate h = Inr h' \<and>
         (total_tokens h' \<le> context_window_tokens h' \<or> length (messages h') < 2) \<and>
         total_tokens h' \<le> total_tokens h + (25 - 20) \<and> total_tokens h' = 30) \<and>
      total_tokens g \<le> context_window_tokens g \<and> length (messages g) < 2 \<and>
      truncate g = Inr g"
proof -
  define h where "h = \<lparr>model = ''m'', system = ''s'', context_window_tokens = 30,
            messages = [\<lparr>role = ''user'', content = [text_block ''q1'']\<rparr>,
                        \<lparr>role = ''assistant'', content = [text_block ''a1'']\<rparr>,
                        \<lparr>role = ''user'', content = [text_block ''q2'']\<rparr>,
                        \<lparr>role = ''assistant'', content = [text_block ''a2'']\<rparr>,
                        \<lparr>role = ''user'', content = [text_block ''q3'']\<rparr>],
            total_tokens = 40, enable_caching = True, message_tokens = [(10, 5), (20, 5)]\<rparr>"
  define g where "g = h\<lparr>total_tokens := 30,
       messages := [\<lparr>role = ''user'', content = [text_block ''q1'']\<rparr>], message_tokens := []\<rparr>"
  have p: "length (messages h) \<le> 2 * length (message_tokens h) + 1"
    and n: "\<forall>(i, out) \<in> set (message_tokens h). 0 \<le> i + out"
    by (simp_all add: h_def)
  have gb: "total_tokens g \<le> context_window_tokens g" and gs: "length (messages g) < 2"
    by (simp_all add: g_def h_def)
  from truncate_budget [of h] obtain h' where
    r: "truncate h = Inr h'" and
    b: "length (messages h) \<le> 2 * length (message_tokens h) + 1 \<longrightarrow>
        total_tokens h' \<le> context_window_tokens h' \<or> length (messages h') < 2" and
    a: "let k = length (message_tokens h) - length (message_tokens h');
          adjustment =
            (if 0 < k \<and> messages h' \<noteq> [] \<and> message_tokens h' \<noteq> []
             then TRUNCATION_NOTICE_TOKENS - fst (message_tokens h ! k) else 0)
      in total_tokens h' =
           total_tokens h - sum_list (map (\<lambda>(i, out). i + out) (take k (message_tokens h)))
             + adjustment \<and>
         ((\<forall>(i, out) \<in> set (message_tokens h). 0 \<le> i + out) \<longrightarrow>
            total_tokens h' \<le> total_tokens h + adjustment)"
    by blast
  have v: "truncate h = Inr (h\<lparr>messages := [TRUNCATION_MESSAGE,
                        \<lparr>role = ''assistant'', content = [text_block ''a2'']\<rparr>,
                        \<lparr>role = ''user'', content = [text_block ''q3'']\<rparr>],
                 message_tokens := [(25, 5)], total_tokens := 30\<rparr>)"
    by (simp add: h_def truncate_def truncate_loop.simps loop_guard_def loop_body_def
        remove_message_pair_def rewrite_oldest_def TRUNCATION_NOTICE_TOKENS_def)
  from r v have h': "h' = h\<lparr>messages := [TRUNCATION_MESSAGE,
                        \<lparr>role = ''assistant'', content = [text_block ''a2'']\<rparr>,
                        \<lparr>role = ''user'', content = [text_block ''q3'']\<rparr>],
                 message_tokens := [(25, 5)], total_tokens := 30\<rparr>"
    by simp
  from b p have c1: "total_tokens h' \<le> context_window_tokens h' \<or> length (messages h') < 2"
    by simp
  from a n have c2: "total_tokens h' \<le> total_tokens h + (25 - 20)"
    by (simp add: Let_def h' h_def TRUNCATION_NOTICE_TOKENS_def)
  have c3: "total_tokens h' = 30"
    by (simp add: h')
  from truncate_budget [of g] gb have "truncate g = Inr g"
    by auto
  with p n r c1 c2 c3 gb gs show ?thesis
    unfolding Let_def h_def [symmetric] g_def [symmetric] by blast
qed

text \<open>
  Claim C2. From an empty history with window 30 and counter 0, three rounds of a user
  message and an assistant message with cumulative usages of 10, 25 and 40 input tokens
  and 5 output tokens each bring the counter to 15, 30 and 45, every round recording the
  incremental cost \<open>(10, 5)\<close>. \<^verbatim>\<open>truncate\<close> changes nothing at 15 and at 30. At 45 its loop
  runs twice and not once, removing four of the six messages: the notice and the last
  assistant message remain, with the one cost entry \<open>(25, 5)\<close> and the counter 30.
\<close>

theorem budget_scenario:
  "let usage = (\<lambda>n. \<lparr>input_tokens = n, output_tokens = 5,
                      cache_read_input_tokens = None, cache_creation_input_tokens = None\<rparr>);
       h0 = MessageHistory_init ''m'' '''' 30 0 True;
       h1 = add_message (add_message h0 ''user'' (Inl ''q1'') None)
              ''assistant'' (Inl ''a1'') (Some (usage 10));
       h2 = add_message (add_message h1 ''user'' (Inl ''q2'') None)
              ''assistant'' (Inl ''a2'') (Some (usage 25));
       h3 = add_message (add_message h2 ''user'' (Inl ''q3'') None)
              ''assistant'' (Inl ''a3'') (Some (usage 40))
   in total_tokens h0 = 0 \<and> total_tokens h1 = 15 \<and> total_tokens h2 = 30 \<and> total_tokens h3 = 45 \<and>
      message_tokens h3 = [(10, 5), (10, 5), (10, 5)] \<and> length (messages h3) = 6 \<and>
      truncate h1 = Inr h1 \<and> truncate h2 = Inr h2 \<and>
      truncate h3 =
        Inr (h3\<lparr>messages := [TRUNCATION_MESSAGE,
                              \<lparr>role = ''assistant'', content = [text_block ''a3'']\<rparr>],
                message_tokens := [(25, 5)], total_tokens := 30\<rparr>) \<and>
      loop_fuel 1 h3 = None \<and> loop_fuel 2 h3 = Some (truncate h3)"
  by code_simp

lemma loop_fuel_enough:
  "length (message_tokens h) \<le> n \<Longrightarrow> loop_fuel n h = Some (truncate_loop h)"
proof (induction n arbitrary: h)
  case 0
  then have "\<not> loop_guard h"
    by (simp add: loop_guard_def)
  then show ?case
    by (simp add: loop_fuel.simps [of 0 h] truncate_loop.simps [of h])
next
  case (Suc n)
  show ?case
  proof (cases "loop_guard h")
    case False
    then show ?thesis
      by (simp add: loop_fuel.simps [of "Suc n" h] truncate_loop.simps [of h])
  next
    case True
    from loop_body_step [OF True] obtain h1 where b: "loop_body h = Inr h1"
      and l: "Suc (length (message_tokens h1)) = length (message_tokens h)"
      by blast
    from l Suc.prems have "length (message_tokens h1) \<le> n" by simp
    then have "loop_fuel n h1 = Some (truncate_loop h1)" by (rule Suc.IH)
    with True b show ?thesis
      by (simp add: loop_fuel.simps [of "Suc n" h] truncate_loop.simps [of h])
  qed
qed

text \<open>
  Claim C10. \<^verbatim>\<open>truncate\<close> returns for every history: the loop bounded by the number of cost
  entries held at the start never runs out of iterations and gives the result of the
  loop, and each run of the body under the guard succeeds and leaves exactly one cost
  entry fewer.
\<close>

theorem truncate_terminates:
  "(\<exists>h'. truncate h = Inr h') \<and>
   loop_fuel (length (message_tokens h)) h = Some (truncate_loop h) \<and>
   (loop_guard h \<longrightarrow>
      (\<exists>h1. loop_body h = Inr h1 \<and>
         Suc (length (message_tokens h1)) = length (message_tokens h)))"
proof -
  from truncate_loop_exit [of h] obtain h' where "truncate_loop h = Inr h'"
    by blast
  then have "\<exists>h'. truncate h = Inr h'"
    by (simp add: truncate_def)
  moreover have "loop_fuel (length (message_tokens h)) h = Some (truncate_loop h)"
    by (rule loop_fuel_enough) simp
  moreover have "loop_guard h \<longrightarrow>
      (\<exists>h1. loop_body h = Inr h1 \<and>
         Suc (length (message_tokens h1)) = length (message_tokens h))"
    using loop_body_step [of h] by blast
  ultimately show ?thesis by simp
qed

text \<open>
  The theorem at the history of claim C2 before truncation: the guard holds, and after
  the first run of the body the rewrite has put the counter back to 45, so the guard
  holds again with one entry fewer.
\<close>

theorem truncate_terminates_witness:
  "let h = \<lparr>model = ''m'', system = '''', context_window_tokens = 30,
            messages = [\<lparr>role = ''user'', content = [text_block ''q1'']\<rparr>,
                        \<lparr>role = ''assistant'', content = [text_block ''a1'']\<rparr>,
                        \<lparr>role = ''user'', content = [text_block ''q2'']\<rparr>,
                        \<lparr>role = ''assistant'', content = [text_block ''a2'']\<rparr>,
                        \<lparr>role = ''user'', content = [text_block ''q3'']\<rparr>,
                        \<lparr>role = ''assistant'', content = [text_block ''a3'']\<rparr>],
            total_tokens = 45, enable_caching = True,
            message_tokens = [(10, 5), (10, 5), (10, 5)]\<rparr>
   in loop_guard h \<and>
      (\<exists>h1. loop_body h = Inr h1 \<and> Suc (length (message_tokens h1)) = length (message_tokens h) \<and>
         total_tokens h1 = 45 \<and> loop_guard h1) \<and>
      loop_fuel 3 h = Some (truncate_loop h)"
proof -
  define h where "h = \<lparr>model = ''m'', system = '''', context_window_tokens = 30,
            messages = [\<lparr>role = ''user'', content = [text_block ''q1'']\<rparr>,
                        \<lparr>role = ''assistant'', content = [text_block ''a1'']\<rparr>,
                        \<lparr>role = ''user'', content = [text_block ''q2'']\<rparr>,
                        \<lparr>role = ''assistant'', content = [text_block ''a2'']\<rparr>,
                        \<lparr>role = ''user'', content = [text_block ''q3'']\<rparr>,
                        \<lparr>role = ''assistant'', content = [text_block ''a3'']\<rparr>],
            total_tokens = 45, enable_caching = True,
            message_tokens = [(10, 5), (10, 5), (10, 5)]\<rparr>"
  have g: "loop_guard h"
    by (simp add: h_def loop_guard_def)
  from truncate_terminates [of h] g obtain h1 where
    b: "loop_body h = Inr h1" and l: "Suc (length (message_tokens h1)) = length (message_tokens h)"
    by blast
  have "loop_body h = Inr (h\<lparr>messages := TRUNCATION_MESSAGE # drop 3 (messages h),
          message_tokens := [(25, 5), (10, 5)], total_tokens := 45\<rparr>)"
    by (simp add: h_def loop_body_def remove_message_pair_def rewrite_oldest_def
        TRUNCATION_NOTICE_TOKENS_def)
  with b have "total_tokens h1 = 45 \<and> loop_guard h1"
    by (auto simp: h_def loop_guard_def)
  moreover have "length (message_tokens h) = 3"
    by (simp add: h_def)
  with truncate_terminates [of h] have "loop_fuel 3 h = Some (truncate_loop h)"
    by (simp only:)
  ultimately show ?thesis
    using g b l unfolding Let_def h_def [symmetric] by blast
qed

section \<open>The history in the agent loop\<close>

lemma alternating_append:
  "alternating ms \<Longrightarrow> role a = ''assistant'' \<Longrightarrow> role u = ''user'' \<Longrightarrow> alternating (ms @ [a, u])"
  by (induction ms rule: alternating.induct) auto

lemma alternating_replace_first:
  "alternating (m # ms) \<Longrightarrow> role m' = ''user'' \<Longrightarrow> alternating (m' # ms)"
  by (cases ms) auto

lemma alternating_odd: "alternating ms \<Longrightarrow> odd (length ms) \<and> role (hd ms) = ''user''"
  by (induction ms rule: alternating.induct) auto

lemma truncate_loop_alternating:
  "\<exists>h'. truncate_loop h = Inr h' \<and> (alternating (messages h) \<longrightarrow> alternating (messages h'))"
proof (rule truncate_loop_rel)
  fix h :: MessageHistory
  show "alternating (messages h) \<longrightarrow> alternating (messages h)" by simp
next
  fix h h1 h'
  assume g: "loop_guard h" and b: "loop_body h = Inr h1"
    and q: "alternating (messages h1) \<longrightarrow> alternating (messages h')"
  from loop_body_guard [OF g] b obtain m0 m1 ms inp out ts where
    m: "messages h = m0 # m1 # ms" and
    h1: "h1 = rewrite_oldest (h\<lparr>messages := ms, message_tokens := ts,
                                 total_tokens := total_tokens h - (inp + out)\<rparr>)"
    by auto
  show "alternating (messages h) \<longrightarrow> alternating (messages h')"
  proof
    assume "alternating (messages h)"
    with m have a: "alternating ms" by simp
    then obtain m' ms' where ms: "ms = m' # ms'" by (cases ms) auto
    have "alternating (messages h1)"
    proof (cases ts)
      case Nil
      with a show ?thesis by (simp add: h1 rewrite_oldest_def)
    next
      case (Cons t ts')
      have "role TRUNCATION_MESSAGE = ''user''"
        by (simp add: TRUNCATION_MESSAGE_def)
      with a ms have "alternating (TRUNCATION_MESSAGE # ms')"
        by (auto intro: alternating_replace_first)
      with Cons ms show ?thesis
        by (cases t) (simp add: h1 rewrite_oldest_def)
    qed
    with q show "alternating (messages h')" by simp
  qed
qed

lemma truncate_shape:
  assumes "alternating (messages h)" and "length (messages h) = 2 * length (message_tokens h) + 1"
  shows "\<exists>h'. truncate h = Inr h' \<and> alternating (messages h') \<and>
           length (messages h') = 2 * length (message_tokens h') + 1"
proof (cases "total_tokens h \<le> context_window_tokens h")
  case True
  with assms show ?thesis by (simp add: truncate_def)
next
  case False
  from truncate_loop_alternating [of h] truncate_loop_equal_shape [of h] assms
  have "\<exists>h'. truncate_loop h = Inr h' \<and> alternating (messages h') \<and>
           length (messages h') = 2 * length (message_tokens h') + 1"
    by auto
  with False show ?thesis by (simp add: truncate_def)
qed

lemma add_round_shape:
  assumes "alternating (messages h)" and "length (messages h) = 2 * length (message_tokens h) + 1"
  shows "alternating (messages (add_message (add_message h ''assistant'' c (Some u)) ''user'' c' None)) \<and>
         length (messages (add_message (add_message h ''assistant'' c (Some u)) ''user'' c' None)) =
           2 * length (message_tokens (add_message (add_message h ''assistant'' c (Some u)) ''user'' c' None)) + 1"
  using assms by (simp add: add_message_def Let_def alternating_append)

lemma at_loop_top_shape:
  "at_loop_top h \<Longrightarrow>
     alternating (messages h) \<and> length (messages h) = 2 * length (message_tokens h) + 1"
proof (induction rule: at_loop_top.induct)
  case (first_run mdl sys ctx system_token user_input)
  show ?case
    by (simp add: add_message_def MessageHistory_init_def)
next
  case (tool_round h h1 response_content response_usage tool_results)
  from truncate_shape [of h] tool_round.IH tool_round.hyps(2)
  have "alternating (messages h1)" and "length (messages h1) = 2 * length (message_tokens h1) + 1"
    by auto
  then show ?case
    by (rule add_round_shape)
next
  case (next_run h h1 response_content response_usage user_input)
  from truncate_shape [of h] next_run.IH next_run.hyps(2)
  have "alternating (messages h1)" and "length (messages h1) = 2 * length (message_tokens h1) + 1"
    by auto
  then show ?case
    by (rule add_round_shape)
qed

text \<open>
  Claim C7, as amended. At every point where the agent loop calls \<^verbatim>\<open>truncate\<close>, in runs
  whose backend calls all returned, the call returns a history with an odd number of
  messages that starts with a user message: user and assistant messages in turn up to
  the user message that the backend has not answered yet, with one cost entry for each
  assistant message.
\<close>

theorem pairing_after_truncate:
  assumes "at_loop_top h"
  shows "\<exists>h'. truncate h = Inr h' \<and> odd (length (messages h')) \<and>
           role (hd (messages h')) = ''user'' \<and> alternating (messages h') \<and>
           length (messages h') = 2 * length (message_tokens h') + 1"
proof -
  from at_loop_top_shape [OF assms] truncate_shape [of h] obtain h' where
    "truncate h = Inr h'" and a: "alternating (messages h')" and
    "length (messages h') = 2 * length (message_tokens h') + 1"
    by blast
  moreover from a have "odd (length (messages h')) \<and> role (hd (messages h')) = ''user''"
    by (rule alternating_odd)
  ultimately show ?thesis by simp
qed

text \<open>
  Claim C7 as stated fails. The first run asks \<open>q1\<close> and gets an answer with no tool use
  and a usage of 100 and 5 tokens; the second run asks \<open>q2\<close> with a window of 50. The
  call of \<^verbatim>\<open>truncate\<close> at the top of the loop removes the first pair and leaves one
  message: the number of messages is neither zero nor even.
\<close>

theorem pairing_after_truncate_counterexample:
  "let h = add_message (add_message
             (add_message (MessageHistory_init ''m'' ''s'' 50 0 True) ''user'' (Inl ''q1'') None)
             ''assistant'' (Inr [text_block ''a1''])
               (Some \<lparr>input_tokens = 100, output_tokens = 5,
                      cache_read_input_tokens = None, cache_creation_input_tokens = None\<rparr>))
             ''user'' (Inl ''q2'') None
   in at_loop_top h \<and>
      (case truncate h of
         Inl e \<Rightarrow> False
       | Inr h' \<Rightarrow> length (messages h') \<noteq> 0 \<and> \<not> even (length (messages h')))"
proof -
  define h0 where "h0 = add_message (MessageHistory_init ''m'' ''s'' 50 0 True) ''user'' (Inl ''q1'') None"
  have a: "at_loop_top h0"
    unfolding h0_def by (rule at_loop_top.first_run)
  have t: "truncate h0 = Inr h0"
    by (simp add: h0_def truncate_def add_message_def MessageHistory_init_def)
  have c: "tool_calls [text_block ''a1''] = []"
    by (simp add: tool_calls_def text_block_def dict_get_def)
  have "at_loop_top (add_message (add_message h0 ''assistant'' (Inr [text_block ''a1''])
               (Some \<lparr>input_tokens = 100, output_tokens = 5,
                      cache_read_input_tokens = None, cache_creation_input_tokens = None\<rparr>))
             ''user'' (Inl ''q2'') None)"
    using a t c by (rule at_loop_top.next_run)
  moreover have "case truncate (add_message (add_message h0 ''assistant'' (Inr [text_block ''a1''])
               (Some \<lparr>input_tokens = 100, output_tokens = 5,
                      cache_read_input_tokens = None, cache_creation_input_tokens = None\<rparr>))
             ''user'' (Inl ''q2'') None) of
         Inl e \<Rightarrow> False
       | Inr h' \<Rightarrow> length (messages h') \<noteq> 0 \<and> \<not> even (length (messages h'))"
    unfolding h0_def by code_simp
  ultimately show ?thesis
    by (simp add: h0_def Let_def)
qed

text \<open>
  The theorem after a round with a tool call and a second run: \<^verbatim>\<open>truncate\<close> removes the
  first pair and rewrites the tool results into the notice; three messages remain.
\<close>

theorem pairing_after_truncate_witness:
  "let h0 = add_message (MessageHistory_init ''m'' ''s'' 50 0 True) ''user'' (Inl ''q1'') None;
       h1 = add_message (add_message h0
              ''assistant'' (Inr [ [(''type'', PyStr ''tool_use''), (''id'', PyStr ''t1'')] ])
                (Some \<lparr>input_tokens = 30, output_tokens = 5,
                       cache_read_input_tokens = None, cache_creation_input_tokens = None\<rparr>))
              ''user'' (Inr [tool_result ''t1'']) None;
       h2 = add_message (add_message h1
              ''assistant'' (Inr [text_block ''a2''])
                (Some \<lparr>input_tokens = 60, output_tokens = 5,
                       cache_read_input_tokens = None, cache_creation_input_tokens = None\<rparr>))
              ''user'' (Inl ''q2'') None
   in at_loop_top h2 \<and>
      (\<exists>h'. truncate h2 = Inr h' \<and> odd (length (messages h')) \<and>
         role (hd (messages h')) = ''user'' \<and> length (messages h') = 3 \<and>
         hd (messages h') = TRUNCATION_MESSAGE)"
proof -
  define h0 where "h0 = add_message (MessageHistory_init ''m'' ''s'' 50 0 True) ''user'' (Inl ''q1'') None"
  define h1 where "h1 = add_message (add_message h0
              ''assistant'' (Inr [ [(''type'', PyStr ''tool_use''), (''id'', PyStr ''t1'')] ])
                (Some \<lparr>input_tokens = 30, output_tokens = 5,
                       cache_read_input_tokens = None, cache_creation_input_tokens = None\<rparr>))
              ''user'' (Inr [tool_result ''t1'']) None"
  define h2 where "h2 = add_message (add_message h1
              ''assistant'' (Inr [text_block ''a2''])
                (Some \<lparr>input_tokens = 60, output_tokens = 5,
                       cache_read_input_tokens = None, cache_creation_input_tokens = None\<rparr>))
              ''user'' (Inl ''q2'') None"
  have a0: "at_loop_top h0"
    unfolding h0_def by (rule at_loop_top.first_run)
  have t0: "truncate h0 = Inr h0"
    by (simp add: h0_def truncate_def add_message_def MessageHistory_init_def)
  have c0: "tool_calls [ [(''type'', PyStr ''tool_use''), (''id'', PyStr ''t1'')] ] \<noteq> []"
    by (simp add: tool_calls_def dict_get_def)
  have a1: "at_loop_top h1"
    unfolding h1_def using a0 t0 c0 by (rule at_loop_top.tool_round)
  have t1: "truncate h1 = Inr h1"
    unfolding h1_def h0_def by code_simp
  have c1: "tool_calls [text_block ''a2''] = []"
    by (simp add: tool_calls_def text_block_def dict_get_def)
  have a2: "at_loop_top h2"
    unfolding h2_def using a1 t1 c1 by (rule at_loop_top.next_run)
  from pairing_after_truncate [OF a2] obtain h' where
    r: "truncate h2 = Inr h'" and o: "odd (length (messages h'))" and
    u: "role (hd (messages h')) = ''user''"
    by blast
  have "case truncate h2 of Inl e \<Rightarrow> False
        | Inr g \<Rightarrow> length (messages g) = 3 \<and> hd (messages g) = TRUNCATION_MESSAGE"
    unfolding h2_def h1_def h0_def by code_simp
  with r have "length (messages h') = 3 \<and> hd (messages h') = TRUNCATION_MESSAGE"
    by simp
  with a2 r o u show ?thesis
    unfolding Let_def h0_def [symmetric] h1_def [symmetric] h2_def [symmetric] by blast
qed

text \<open>
  Runs in which a backend call raises are not covered by \<open>at_loop_top\<close>. The exception
  leaves \<^verbatim>\<open>_agent_loop\<close> with the user message of that run in the history, and the next run
  appends its own: after a first run whose backend call raised and a round with a tool
  call in the second run, \<^verbatim>\<open>truncate\<close> removes the two user messages and leaves an
  assistant message first.
\<close>

lemma raised_backend_call_breaks_alternation:
  "let h = add_message (add_message (add_message (add_message
             (MessageHistory_init ''m'' ''s'' 50 0 True)
             ''user'' (Inl ''q1'') None)
             ''user'' (Inl ''q2'') None)
             ''assistant'' (Inr [ [(''type'', PyStr ''tool_use''), (''id'', PyStr ''t1'')] ])
               (Some \<lparr>input_tokens = 100, output_tokens = 5,
                      cache_read_input_tokens = None, cache_creation_input_tokens = None\<rparr>))
             ''user'' (Inr [tool_result ''t1'']) None
   in case truncate h of
        Inl e \<Rightarrow> False
      | Inr h' \<Rightarrow> length (messages h') = 2 \<and> role (hd (messages h')) = ''assistant''"
  by code_simp

section \<open>Properties of \<^verbatim>\<open>format_for_api\<close>\<close>

lemma copied_messages: "map (\<lambda>m. \<lparr>role = role m, content = content m\<rparr>) ms = ms"
  by (induction ms) auto

lemma format_for_api_length: "length (format_for_api h) = length (messages h)"
  by (simp add: format_for_api_def Let_def)

lemma format_for_api_earlier:
  "i + 1 < length (messages h) \<Longrightarrow> format_for_api h ! i = messages h ! i"
  by (simp add: format_for_api_def Let_def copied_messages)

lemma format_for_api_last:
  assumes "enable_caching h" and "messages h \<noteq> []"
  shows "last (format_for_api h) =
           \<lparr>role = role (last (messages h)),
            content = map mark_block (content (last (messages h)))\<rparr>"
proof -
  from assms(2) have "length (messages h) - 1 < length (messages h)"
    by (cases "messages h") auto
  with assms show ?thesis
    by (simp add: format_for_api_def Let_def copied_messages last_conv_nth)
qed

lemma format_for_api_no_caching: "\<not> enable_caching h \<Longrightarrow> format_for_api h = messages h"
  by (simp add: format_for_api_def Let_def copied_messages)

lemma mark_block_marked: "dict_get (mark_block b) ''cache_control'' = Some cache_control"
  by (induction b) (auto simp: mark_block_def dict_get_def)

subsection \<open>On the store\<close>

lemma deref_messages_nth:
  "deref_messages st as = Some ms \<longleftrightarrow>
     length ms = length as \<and>
     (\<forall>i < length as. \<exists>r c bs. get_msg st (as ! i) = Some (r, c) \<and> get_blocks st c = Some bs \<and>
        ms ! i = \<lparr>role = r, content = bs\<rparr>)"
proof (induction as arbitrary: ms)
  case Nil
  show ?case by auto
next
  case (Cons a as)
  show ?case
  proof
    assume d: "deref_messages st (a # as) = Some ms"
    then obtain r c bs ms' where
      g: "get_msg st a = Some (r, c)" and b: "get_blocks st c = Some bs" and
      t: "deref_messages st as = Some ms'" and ms: "ms = \<lparr>role = r, content = bs\<rparr> # ms'"
      by (auto split: option.splits)
    from t Cons.IH [of ms'] have l: "length ms' = length as" and
      n: "\<forall>i < length as. \<exists>r c bs. get_msg st (as ! i) = Some (r, c) \<and> get_blocks st c = Some bs \<and>
        ms' ! i = \<lparr>role = r, content = bs\<rparr>"
      by auto
    show "length ms = length (a # as) \<and>
     (\<forall>i < length (a # as). \<exists>r c bs. get_msg st ((a # as) ! i) = Some (r, c) \<and>
        get_blocks st c = Some bs \<and> ms ! i = \<lparr>role = r, content = bs\<rparr>)"
    proof (intro conjI allI impI)
      show "length ms = length (a # as)" using l ms by simp
    next
      fix i assume "i < length (a # as)"
      then show "\<exists>r c bs. get_msg st ((a # as) ! i) = Some (r, c) \<and>
        get_blocks st c = Some bs \<and> ms ! i = \<lparr>role = r, content = bs\<rparr>"
        using g b n ms by (cases i) auto
    qed
  next
    assume a: "length ms = length (a # as) \<and>
     (\<forall>i < length (a # as). \<exists>r c bs. get_msg st ((a # as) ! i) = Some (r, c) \<and>
        get_blocks st c = Some bs \<and> ms ! i = \<lparr>role = r, content = bs\<rparr>)"
    then obtain m ms' where ms: "ms = m # ms'" and l: "length ms' = length as"
      by (cases ms) auto
    from a have "\<exists>r c bs. get_msg st ((a # as) ! 0) = Some (r, c) \<and>
        get_blocks st c = Some bs \<and> ms ! 0 = \<lparr>role = r, content = bs\<rparr>"
      by blast
    then obtain r c bs where g: "get_msg st a = Some (r, c)" and b: "get_blocks st c = Some bs"
      and m: "m = \<lparr>role = r, content = bs\<rparr>"
      using ms by auto
    have "\<forall>i < length as. \<exists>r c bs. get_msg st (as ! i) = Some (r, c) \<and> get_blocks st c = Some bs \<and>
        ms' ! i = \<lparr>role = r, content = bs\<rparr>"
    proof (intro allI impI)
      fix i assume "i < length as"
      then have "Suc i < length (a # as)" by simp
      with a have "\<exists>r c bs. get_msg st ((a # as) ! Suc i) = Some (r, c) \<and>
        get_blocks st c = Some bs \<and> ms ! Suc i = \<lparr>role = r, content = bs\<rparr>"
        by blast
      then show "\<exists>r c bs. get_msg st (as ! i) = Some (r, c) \<and> get_blocks st c = Some bs \<and>
        ms' ! i = \<lparr>role = r, content = bs\<rparr>"
        using ms by simp
    qed
    with l Cons.IH [of ms'] have "deref_messages st as = Some ms'"
      by simp
    with g b m ms show "deref_messages st (a # as) = Some ms"
      by simp
  qed
qed

lemma get_msg_Some:
  "get_msg st a = Some (r, c) \<longleftrightarrow> a < length st \<and> st ! a = MsgDict r c"
  by (auto simp: get_msg_def split: hobj.splits)

lemma get_blocks_Some:
  "get_blocks st a = Some bs \<longleftrightarrow> a < length st \<and> st ! a = BlockList bs"
  by (auto simp: get_blocks_def split: hobj.splits)

text \<open>
  The comprehension appends one copy of each persisted dictionary to the store and
  returns the addresses of the copies.
\<close>

lemma copy_messages_appends:
  assumes "\<forall>a \<in> set as. \<exists>r c. get_msg st a = Some (r, c)"
  shows "copy_messages st as =
           Some (st @ map (\<lambda>a. st ! a) as, [length st ..< length st + length as])"
  using assms
proof (induction as arbitrary: st)
  case Nil
  show ?case by simp
next
  case (Cons a as)
  from Cons.prems obtain r c where g: "get_msg st a = Some (r, c)"
    by auto
  then have a: "a < length st" "st ! a = MsgDict r c"
    by (simp_all add: get_msg_Some)
  have "\<forall>b \<in> set as. \<exists>r' c'. get_msg (st @ [MsgDict r c]) b = Some (r', c')"
    using Cons.prems by (auto simp: get_msg_Some nth_append)
  from Cons.IH [OF this]
  have "copy_messages (st @ [MsgDict r c]) as =
          Some ((st @ [MsgDict r c]) @ map (\<lambda>b. (st @ [MsgDict r c]) ! b) as,
                [length (st @ [MsgDict r c]) ..< length (st @ [MsgDict r c]) + length as])" .
  moreover have "map (\<lambda>b. (st @ [MsgDict r c]) ! b) as = map (\<lambda>b. st ! b) as"
    using Cons.prems by (auto simp: get_msg_Some nth_append)
  moreover have "[length st ..< length st + length (a # as)] =
                 length st # [length (st @ [MsgDict r c]) ..< length (st @ [MsgDict r c]) + length as]"
    by (simp add: upt_conv_Cons del: upt_Suc)
  ultimately show ?case
    using g a by (simp add: alloc_def del: upt_Suc)
qed


lemma format_for_api_store_frame:
  assumes d: "deref_messages st as = Some (messages h)"
  shows "\<exists>st' result.
           format_for_api_store st as (enable_caching h) = Some (st', result) \<and>
           take (length st) st' = st \<and>
           deref_messages st' as = Some (messages h) \<and>
           deref_messages st' result = Some (format_for_api h)"
proof -
  define ms where "ms = messages h"
  define n where "n = length as"
  define st1 where "st1 = st @ map (\<lambda>a. st ! a) as"
  define result where "result = [length st ..< length st + n]"
  from d have l: "length ms = n"
    and p: "\<forall>i < n. \<exists>r c bs. get_msg st (as ! i) = Some (r, c) \<and> get_blocks st c = Some bs \<and>
        ms ! i = \<lparr>role = r, content = bs\<rparr>"
    by (simp_all add: deref_messages_nth ms_def n_def)
  have "\<forall>a \<in> set as. \<exists>r c. get_msg st a = Some (r, c)"
  proof
    fix a assume "a \<in> set as"
    then obtain i where "i < n" "a = as ! i"
      by (auto simp: in_set_conv_nth n_def)
    with p show "\<exists>r c. get_msg st a = Some (r, c)" by blast
  qed
  then have copy: "copy_messages st as = Some (st1, result)"
    by (simp add: copy_messages_appends st1_def result_def n_def)
  have l1: "length st1 = length st + n"
    by (simp add: st1_def n_def)
  have lr: "length result = n" and rn: "\<And>i. i < n \<Longrightarrow> result ! i = length st + i"
    by (simp_all add: result_def)
  have low: "\<And>a. a < length st \<Longrightarrow> st1 ! a = st ! a"
    by (simp add: st1_def nth_append)
  have new: "\<And>i. i < n \<Longrightarrow> st1 ! (length st + i) = st ! (as ! i)"
    by (simp add: st1_def nth_append n_def)
  show ?thesis
  proof (cases "enable_caching h \<and> as \<noteq> []")
    case False
    with copy have r: "format_for_api_store st as (enable_caching h) = Some (st1, result)"
      by (auto simp: format_for_api_store_def)
    have f: "format_for_api h = ms"
    proof (cases "enable_caching h")
      case False
      then show ?thesis by (simp add: format_for_api_no_caching ms_def)
    next
      case True
      with \<open>\<not> (enable_caching h \<and> as \<noteq> [])\<close> l have "messages h = []"
        by (simp add: n_def ms_def)
      then show ?thesis by (simp add: format_for_api_def ms_def)
    qed
    have "deref_messages st1 as = Some ms"
      unfolding deref_messages_nth
    proof (intro conjI allI impI)
      show "length ms = length as" using l by (simp add: n_def)
    next
      fix i assume "i < length as"
      with p obtain r c bs where "get_msg st (as ! i) = Some (r, c)" "get_blocks st c = Some bs"
        "ms ! i = \<lparr>role = r, content = bs\<rparr>"
        unfolding n_def by blast
      then show "\<exists>r c bs. get_msg st1 (as ! i) = Some (r, c) \<and> get_blocks st1 c = Some bs \<and>
        ms ! i = \<lparr>role = r, content = bs\<rparr>"
        using low l1 by (auto simp: get_msg_Some get_blocks_Some)
    qed
    moreover have "deref_messages st1 result = Some ms"
      unfolding deref_messages_nth
    proof (intro conjI allI impI)
      show "length ms = length result" using l lr by simp
    next
      fix i assume "i < length result"
      then have i: "i < n" using lr by simp
      with p obtain r c bs where "get_msg st (as ! i) = Some (r, c)" "get_blocks st c = Some bs"
        "ms ! i = \<lparr>role = r, content = bs\<rparr>"
        by blast
      then show "\<exists>r c bs. get_msg st1 (result ! i) = Some (r, c) \<and> get_blocks st1 c = Some bs \<and>
        ms ! i = \<lparr>role = r, content = bs\<rparr>"
        using low l1 new [OF i] rn [OF i] i by (auto simp: get_msg_Some get_blocks_Some)
    qed
    moreover have "take (length st) st1 = st"
      by (simp add: st1_def)
    ultimately show ?thesis
      using r f by (simp add: ms_def)
  next
    case True
    then have c: "enable_caching h" and ne: "as \<noteq> []" by simp_all
    define k where "k = n - 1"
    from ne have k: "k < n" and nk: "n = Suc k"
      by (simp_all add: k_def n_def)
    from ne have la: "last as = as ! k"
      by (simp add: last_conv_nth k_def n_def)
    from k have lres: "last result = length st + k"
      by (simp add: result_def nk)
    from p k obtain r c bs where
      g: "get_msg st (as ! k) = Some (r, c)" and b: "get_blocks st c = Some bs" and
      m: "ms ! k = \<lparr>role = r, content = bs\<rparr>"
      by blast
    define st2 where "st2 = st1 @ [BlockList (map mark_block bs)]"
    define st' where "st' = st2[length st + k := MsgDict r (length st1)]"
    have g1: "get_msg st1 (last as) = Some (r, c)"
      using g low l1 by (auto simp: la get_msg_Some)
    have b1: "get_blocks st1 c = Some bs"
      using b low l1 by (auto simp: get_blocks_Some)
    have g2: "get_msg st2 (last result) = Some (r, c)"
      using g new [OF k] k l1 by (auto simp: lres st2_def get_msg_Some nth_append)
    from copy c ne g1 b1 g2
    have r: "format_for_api_store st as (enable_caching h) = Some (st', result)"
      by (simp add: format_for_api_store_def alloc_def st2_def st'_def lres)
    have l': "length st' = Suc (length st + n)"
      by (simp add: st'_def st2_def l1)
    have low': "\<And>a. a < length st \<Longrightarrow> st' ! a = st ! a"
      using low l1 by (simp add: st'_def st2_def nth_append)
    have fr: "take (length st) st' = st"
      by (simp add: st'_def st2_def st1_def)
    have da: "deref_messages st' as = Some ms"
      unfolding deref_messages_nth
    proof (intro conjI allI impI)
      show "length ms = length as" using l by (simp add: n_def)
    next
      fix i assume "i < length as"
      with p obtain r c bs where "get_msg st (as ! i) = Some (r, c)" "get_blocks st c = Some bs"
        "ms ! i = \<lparr>role = r, content = bs\<rparr>"
        unfolding n_def by blast
      then show "\<exists>r c bs. get_msg st' (as ! i) = Some (r, c) \<and> get_blocks st' c = Some bs \<and>
        ms ! i = \<lparr>role = r, content = bs\<rparr>"
        using low' l' by (auto simp: get_msg_Some get_blocks_Some)
    qed
    have lf: "length (format_for_api h) = n"
      using l by (simp add: format_for_api_length ms_def)
    have dr: "deref_messages st' result = Some (format_for_api h)"
      unfolding deref_messages_nth
    proof (intro conjI allI impI)
      show "length (format_for_api h) = length result" using lf lr by simp
    next
      fix i assume "i < length result"
      then have i: "i < n" using lr by simp
      show "\<exists>r c bs. get_msg st' (result ! i) = Some (r, c) \<and> get_blocks st' c = Some bs \<and>
        format_for_api h ! i = \<lparr>role = r, content = bs\<rparr>"
      proof (cases "i = k")
        case True
        from ne l have "messages h \<noteq> []"
          by (auto simp: ms_def n_def)
        from format_for_api_last [OF c this] have
          "last (format_for_api h) = \<lparr>role = role (last ms), content = map mark_block (content (last ms))\<rparr>"
          by (simp add: ms_def)
        moreover have "format_for_api h \<noteq> []" and "ms \<noteq> []"
          using lf l nk by auto
        then have "last (format_for_api h) = format_for_api h ! (length (format_for_api h) - 1)"
          and "last ms = ms ! (length ms - 1)"
          by (simp_all add: last_conv_nth)
        then have "last (format_for_api h) = format_for_api h ! k" and "last ms = ms ! k"
          using lf l nk by simp_all
        ultimately have "format_for_api h ! k = \<lparr>role = r, content = map mark_block bs\<rparr>"
          using m by simp
        moreover have "st' ! (length st + k) = MsgDict r (length st1)"
          using k l1 by (simp add: st'_def st2_def)
        moreover have "st' ! length st1 = BlockList (map mark_block bs)"
        proof -
          from k l1 have "length st + k \<noteq> length st1" by simp
          then have "st' ! length st1 = st2 ! length st1"
            by (simp add: st'_def)
          then show ?thesis
            by (simp add: st2_def)
        qed
        ultimately show ?thesis
          using True rn [OF i] l' l1 k by (auto simp: get_msg_Some get_blocks_Some)
      next
        case False
        with i nk have "i + 1 < length (messages h)"
          using l by (simp add: ms_def)
        then have e: "format_for_api h ! i = ms ! i"
          by (simp add: format_for_api_earlier ms_def)
        from p i obtain r' c' bs' where g': "get_msg st (as ! i) = Some (r', c')"
          and b': "get_blocks st c' = Some bs'" and m': "ms ! i = \<lparr>role = r', content = bs'\<rparr>"
          by blast
        have "st' ! (length st + i) = st ! (as ! i)"
          using False i new [OF i] l1 by (simp add: st'_def st2_def nth_append)
        with g' b' m' e show ?thesis
          using rn [OF i] l' low' i by (auto simp: get_msg_Some get_blocks_Some)
      qed
    qed
    from r fr da dr show ?thesis
      by (simp add: ms_def)
  qed
qed

text \<open>
  Claim C9, as amended. \<^verbatim>\<open>format_for_api\<close> returns one message for each persisted one. Every
  message but the last is returned with its role and exactly its persisted blocks, so it
  carries the \<^verbatim>\<open>cache_control\<close> entry only where the persisted block carries one already.
  With caching enabled, the last message is returned with a marked copy of each of its
  blocks, all of which carry the entry; with caching disabled nothing is marked. On the
  store, the call only allocates: every object that existed before it, and with that every
  persisted message and block list, is unchanged, and the addresses returned denote the
  value above.
\<close>

theorem format_for_api_marks_last:
  "length (format_for_api h) = length (messages h) \<and>
   (\<forall>i. i + 1 < length (messages h) \<longrightarrow> format_for_api h ! i = messages h ! i) \<and>
   (enable_caching h \<and> messages h \<noteq> [] \<longrightarrow>
      last (format_for_api h) =
        \<lparr>role = role (last (messages h)),
         content = map mark_block (content (last (messages h)))\<rparr> \<and>
      (\<forall>b \<in> set (content (last (format_for_api h))).
         dict_get b ''cache_control'' = Some cache_control)) \<and>
   (\<not> enable_caching h \<longrightarrow> format_for_api h = messages h) \<and>
   (\<forall>st self_messages.
      deref_messages st self_messages = Some (messages h) \<longrightarrow>
      (\<exists>st' result.
         format_for_api_store st self_messages (enable_caching h) = Some (st', result) \<and>
         take (length st) st' = st \<and>
         deref_messages st' self_messages = Some (messages h) \<and>
         deref_messages st' result = Some (format_for_api h)))"
proof (intro conjI allI impI)
  show "length (format_for_api h) = length (messages h)"
    by (rule format_for_api_length)
next
  fix i assume "i + 1 < length (messages h)"
  then show "format_for_api h ! i = messages h ! i"
    by (rule format_for_api_earlier)
next
  assume a: "enable_caching h \<and> messages h \<noteq> []"
  then show l: "last (format_for_api h) =
        \<lparr>role = role (last (messages h)),
         content = map mark_block (content (last (messages h)))\<rparr>"
    by (simp add: format_for_api_last)
  show "\<forall>b \<in> set (content (last (format_for_api h))).
         dict_get b ''cache_control'' = Some cache_control"
    by (auto simp: l mark_block_marked)
next
  assume "\<not> enable_caching h"
  then show "format_for_api h = messages h"
    by (rule format_for_api_no_caching)
next
  fix st self_messages
  assume "deref_messages st self_messages = Some (messages h)"
  then show "\<exists>st' result.
         format_for_api_store st self_messages (enable_caching h) = Some (st', result) \<and>
         take (length st) st' = st \<and>
         deref_messages st' self_messages = Some (messages h) \<and>
         deref_messages st' result = Some (format_for_api h)"
    by (rule format_for_api_store_frame)
qed

text \<open>
  Claim C9 as stated fails. The first user message is added with a block that carries a
  \<^verbatim>\<open>cache_control\<close> entry of its own, followed by an assistant and a user message. The
  first of the three messages returned is not the final one, and its block carries the
  entry.
\<close>

theorem format_for_api_marks_last_counterexample:
  "let h = add_message (add_message (add_message
             (MessageHistory_init ''m'' ''s'' 1000 0 True)
             ''user'' (Inr [ [(''type'', PyStr ''text''), (''text'', PyStr ''reference text''),
                             (''cache_control'', PyDict [(''type'', PyStr ''ephemeral'')])] ]) None)
             ''assistant'' (Inl ''a1'') None)
             ''user'' (Inl ''q2'') None
   in messages h \<noteq> [] \<and> length (format_for_api h) = 3 \<and>
      dict_get (hd (content (format_for_api h ! 0))) ''cache_control'' \<noteq> None"
  by code_simp

text \<open>
  The theorem at a history of three messages held in a store of six objects, with
  caching enabled and, for its fourth part, disabled.
\<close>

theorem format_for_api_marks_last_witness:
  "let h = \<lparr>model = ''m'', system = ''s'', context_window_tokens = 1000,
            messages = [\<lparr>role = ''user'', content = [text_block ''q1'']\<rparr>,
                        \<lparr>role = ''assistant'', content = [text_block ''a1'']\<rparr>,
                        \<lparr>role = ''user'', content = [text_block ''q2'']\<rparr>],
            total_tokens = 15, enable_caching = True, message_tokens = [(10, 5)]\<rparr>;
       st = [BlockList [text_block ''q1''], MsgDict ''user'' 0,
             BlockList [text_block ''a1''], MsgDict ''assistant'' 2,
             BlockList [text_block ''q2''], MsgDict ''user'' 4]
   in deref_messages st [1, 3, 5] = Some (messages h) \<and> enable_caching h \<and> messages h \<noteq> [] \<and>
      0 + 1 < length (messages h) \<and> format_for_api h ! 0 = messages h ! 0 \<and>
      (\<forall>b \<in> set (content (last (format_for_api h))).
         dict_get b ''cache_control'' = Some cache_control) \<and>
      (\<exists>st' result.
         format_for_api_store st [1, 3, 5] True = Some (st', result) \<and>
         take 6 st' = st \<and> deref_messages st' result = Some (format_for_api h)) \<and>
      \<not> enable_caching (h\<lparr>enable_caching := False\<rparr>) \<and>
      format_for_api (h\<lparr>enable_caching := False\<rparr>) = messages h"
proof -
  define h where "h = \<lparr>model = ''m'', system = ''s'', context_window_tokens = 1000,
            messages = [\<lparr>role = ''user'', content = [text_block ''q1'']\<rparr>,
                        \<lparr>role = ''assistant'', content = [text_block ''a1'']\<rparr>,
                        \<lparr>role = ''user'', content = [text_block ''q2'']\<rparr>],
            total_tokens = 15, enable_caching = True, message_tokens = [(10, 5)]\<rparr>"
  define st where "st = [BlockList [text_block ''q1''], MsgDict ''user'' 0,
             BlockList [text_block ''a1''], MsgDict ''assistant'' 2,
             BlockList [text_block ''q2''], MsgDict ''user'' 4]"
  have d: "deref_messages st [1, 3, 5] = Some (messages h)"
    by (simp add: st_def h_def get_msg_def get_blocks_def)
  have c: "enable_caching h" and n: "messages h \<noteq> []" and i: "0 + 1 < length (messages h)"
    by (simp_all add: h_def)
  have len: "length st = 6"
    by (simp add: st_def)
  note t = format_for_api_marks_last [of h]
  from t i have e: "format_for_api h ! 0 = messages h ! 0"
    by blast
  from t c n have m: "\<forall>b \<in> set (content (last (format_for_api h))).
         dict_get b ''cache_control'' = Some cache_control"
    by blast
  from t d have "\<exists>st' result.
         format_for_api_store st [1, 3, 5] (enable_caching h) = Some (st', result) \<and>
         take (length st) st' = st \<and> deref_messages st' result = Some (format_for_api h)"
    by blast
  with c len have s: "\<exists>st' result.
         format_for_api_store st [1, 3, 5] True = Some (st', result) \<and>
         take 6 st' = st \<and> deref_messages st' result = Some (format_for_api h)"
    by simp
  have o: "\<not> enable_caching (h\<lparr>enable_caching := False\<rparr>)"
    by simp
  with format_for_api_marks_last [of "h\<lparr>enable_caching := False\<rparr>"]
  have f: "format_for_api (h\<lparr>enable_caching := False\<rparr>) = messages h"
    by simp
  from d c n i e m s o f show ?thesis
    unfolding Let_def h_def [symmetric] st_def [symmetric] by blast
qed

section \<open>Properties of the tool dispatcher\<close>

text \<open>What a single call returns, case by case.\<close>

lemma execute_single_tool_cases:
  "fst (execute_single_tool call tool_dict w) =
     (case tool_dict (call_name call) of
        None \<Rightarrow>
          Inr [(''type'', PyStr ''tool_result''), (''tool_use_id'', PyStr (call_id call)),
               (''content'', PyStr (''Tool '' @ quoted (call_name call) @ '' not found'')),
               (''is_error'', PyBool True)]
      | Some t \<Rightarrow>
          (case fst (t (call_input call) w) of
             Inr result \<Rightarrow>
               Inr [(''type'', PyStr ''tool_result''), (''tool_use_id'', PyStr (call_id call)),
                    (''content'', PyStr result)]
           | Inl (Raise cls msg) \<Rightarrow>
               Inr [(''type'', PyStr ''tool_result''), (''tool_use_id'', PyStr (call_id call)),
                    (''content'',
                     PyStr (if cls = KeyError then ''Tool '' @ quoted (call_name call) @ '' not found''
                            else ''Error executing tool: '' @ msg)),
                    (''is_error'', PyBool True)]))"
proof (cases "tool_dict (call_name call)")
  case None
  then show ?thesis
    by (simp add: execute_single_tool_def try_execute_def tool_result_def)
next
  case (Some t)
  obtain outcome w' where t: "t (call_input call) w = (outcome, w')"
    by (cases "t (call_input call) w")
  show ?thesis
  proof (cases outcome)
    case (Inr result)
    with Some t show ?thesis
      by (simp add: execute_single_tool_def try_execute_def tool_result_def)
  next
    case (Inl e)
    with Some t show ?thesis
      by (cases e) (simp add: execute_single_tool_def try_execute_def tool_result_def)
  qed
qed

lemma execute_single_tool_id:
  "\<exists>r. fst (execute_single_tool call tool_dict w) = Inr r \<and>
       dict_get r ''tool_use_id'' = Some (PyStr (call_id call))"
  by (auto simp: execute_single_tool_cases dict_get_def split: option.splits sum.splits exn.splits)

lemma execute_sequential_ids:
  "\<exists>rs. fst (execute_sequential calls tool_dict w) = Inr rs \<and>
        map (\<lambda>r. dict_get r ''tool_use_id'') rs = map (\<lambda>call. Some (PyStr (call_id call))) calls"
proof (induction calls arbitrary: w)
  case Nil
  show ?case by simp
next
  case (Cons call calls)
  obtain r w1 where e: "execute_single_tool call tool_dict w = (r, w1)"
    by (cases "execute_single_tool call tool_dict w")
  with execute_single_tool_id [of call tool_dict w] obtain x where
    x: "r = Inr x" "dict_get x ''tool_use_id'' = Some (PyStr (call_id call))"
    by auto
  obtain rs w2 where s: "execute_sequential calls tool_dict w1 = (rs, w2)"
    by (cases "execute_sequential calls tool_dict w1")
  with Cons.IH [of w1] obtain xs where
    xs: "rs = Inr xs"
      "map (\<lambda>r. dict_get r ''tool_use_id'') xs = map (\<lambda>call. Some (PyStr (call_id call))) calls"
    by auto
  from e x s xs show ?case by simp
qed

text \<open>
  The tasks run in any order: every outcome is recorded under the index of its task.
\<close>

lemma run_tasks_fold:
  assumes "\<forall>i \<in> set order. \<forall>w. \<exists>x. fst ((tasks ! i) w) = Inr x \<and> P i x"
    and "\<forall>(i, r) \<in> set acc. \<exists>x. r = Inr x \<and> P i x"
  shows "map fst (fst (fold (\<lambda>i (finished, w). let (r, w') = (tasks ! i) w in (finished @ [(i, r)], w'))
                     order (acc, w))) = map fst acc @ order \<and>
         (\<forall>(i, r) \<in> set (fst (fold (\<lambda>i (finished, w). let (r, w') = (tasks ! i) w in (finished @ [(i, r)], w'))
                     order (acc, w))). \<exists>x. r = Inr x \<and> P i x)"
  using assms
proof (induction order arbitrary: acc w)
  case Nil
  then show ?case by simp
next
  case (Cons i order)
  obtain r w' where t: "(tasks ! i) w = (r, w')"
    by (cases "(tasks ! i) w")
  from Cons.prems(1) t obtain x where x: "r = Inr x" "P i x"
    by (metis fst_conv list.set_intros(1))
  from Cons.prems x have a: "\<forall>(j, r) \<in> set (acc @ [(i, r)]). \<exists>x. r = Inr x \<and> P j x"
    by auto
  from Cons.prems(1)
  have b: "\<forall>i \<in> set order. \<forall>w. \<exists>x. fst ((tasks ! i) w) = Inr x \<and> P i x"
    by simp
  note Cons.IH [OF b a, of w']
  with t show ?case by simp
qed

lemma collect_all_returned:
  "\<forall>r \<in> set rs. \<exists>x. r = Inr x \<Longrightarrow> collect rs = Inr (map projr rs)"
  by (induction rs rule: collect.induct) auto

lemma gather_in_task_order:
  assumes "\<forall>i < length tasks. \<forall>w. \<exists>x. fst ((tasks ! i) w) = Inr x \<and> P i x"
  shows "\<exists>xs. fst (gather finish_time tasks w) = Inr xs \<and> length xs = length tasks \<and>
           (\<forall>i < length tasks. P i (xs ! i))"
proof -
  define n where "n = length tasks"
  define order where "order = sort_key finish_time [0..<n]"
  define finished where "finished = fst (run_tasks order tasks w)"
  define S where "S = sort_key fst finished"
  have so: "set order = {0..<n}" and dorder: "distinct order"
    by (simp_all add: order_def)
  from assms so have "\<forall>i \<in> set order. \<forall>w. \<exists>x. fst ((tasks ! i) w) = Inr x \<and> P i x"
    by (simp add: n_def)
  from run_tasks_fold [OF this, of "[]" w]
  have mf: "map fst finished = order"
    and ok: "\<forall>(i, r) \<in> set finished. \<exists>x. r = Inr x \<and> P i x"
    by (simp_all add: finished_def run_tasks_def)
  have "sorted (map fst S)"
    by (simp add: S_def sorted_sort_key)
  moreover have "distinct (map fst S)"
    using dorder mf by (simp add: S_def distinct_map [of fst])
      (metis distinct_map)
  moreover have "set (map fst S) = set [0..<n]"
    using so mf by (simp add: S_def) (metis list.set_map)
  ultimately have keys: "map fst S = [0..<n]"
    by (intro sorted_distinct_set_unique) simp_all
  then have lS: "length S = n"
    by (metis length_map length_upt minus_nat.diff_0)
  have okS: "\<forall>(i, r) \<in> set S. \<exists>x. r = Inr x \<and> P i x"
    using ok by (simp add: S_def)
  have c1: "collect (map snd finished) = Inr (map projr (map snd finished))"
    by (rule collect_all_returned) (use ok in auto)
  have c2: "collect (map snd S) = Inr (map projr (map snd S))"
    by (rule collect_all_returned) (use okS in auto)
  have res: "fst (gather finish_time tasks w) = Inr (map projr (map snd S))"
    using c1 c2
    by (simp add: gather_def Let_def split_beta S_def finished_def order_def n_def)
  have "\<forall>i < n. P i (map projr (map snd S) ! i)"
  proof (intro allI impI)
    fix i assume i: "i < n"
    with lS have m: "S ! i \<in> set S" by simp
    from keys i lS have "fst (S ! i) = i"
      by (metis nth_map nth_upt add_0)
    with okS m obtain x where "snd (S ! i) = Inr x" "P i x"
      by (cases "S ! i") auto
    with i lS show "P i (map projr (map snd S) ! i)" by simp
  qed
  with res lS show ?thesis
    by (auto simp: n_def)
qed

lemma gather_tools_ids:
  "\<exists>rs. fst (gather finish_time (map (\<lambda>call. execute_single_tool call tool_dict) calls) w) = Inr rs \<and>
        map (\<lambda>r. dict_get r ''tool_use_id'') rs = map (\<lambda>call. Some (PyStr (call_id call))) calls"
proof -
  let ?tasks = "map (\<lambda>call. execute_single_tool call tool_dict) calls"
  have "\<forall>i < length ?tasks. \<forall>w. \<exists>x. fst ((?tasks ! i) w) = Inr x \<and>
          dict_get x ''tool_use_id'' = Some (PyStr (call_id (calls ! i)))"
    by (simp add: execute_single_tool_id)
  from gather_in_task_order [where P = "\<lambda>i x. dict_get x ''tool_use_id'' = Some (PyStr (call_id (calls ! i)))",
      OF this, of finish_time w]
  obtain rs where r: "fst (gather finish_time ?tasks w) = Inr rs" and l: "length rs = length calls"
    and p: "\<forall>i < length calls. dict_get (rs ! i) ''tool_use_id'' = Some (PyStr (call_id (calls ! i)))"
    by auto
  from l p have "map (\<lambda>r. dict_get r ''tool_use_id'') rs = map (\<lambda>call. Some (PyStr (call_id call))) calls"
    by (simp add: list_eq_iff_nth_eq)
  with r show ?thesis by blast
qed

text \<open>
  Claim C3. For every batch of calls, every registry, every world and every assignment of
  completion times, \<^verbatim>\<open>execute_tools\<close> returns, in the parallel and in the sequential mode,
  a list of results and no exception; the list is as long as the batch, and its
  \<^verbatim>\<open>tool_use_id\<close> entries are the ids of the calls, in the order of the calls.
\<close>

theorem execute_tools_order:
  "\<exists>results. fst (execute_tools finish_time calls tool_dict parallel w) = Inr results \<and>
     length results = length calls \<and>
     map (\<lambda>r. dict_get r ''tool_use_id'') results = map (\<lambda>call. Some (PyStr (call_id call))) calls"
proof (cases parallel)
  case True
  from gather_tools_ids [of finish_time tool_dict calls w] obtain rs where
    "fst (gather finish_time (map (\<lambda>call. execute_single_tool call tool_dict) calls) w) = Inr rs"
    and m: "map (\<lambda>r. dict_get r ''tool_use_id'') rs = map (\<lambda>call. Some (PyStr (call_id call))) calls"
    by blast
  moreover from m have "length rs = length calls"
    by (metis length_map)
  ultimately show ?thesis
    using True by (simp add: execute_tools_def)
next
  case False
  from execute_sequential_ids [of calls tool_dict w] obtain rs where
    "fst (execute_sequential calls tool_dict w) = Inr rs"
    and m: "map (\<lambda>r. dict_get r ''tool_use_id'') rs = map (\<lambda>call. Some (PyStr (call_id call))) calls"
    by blast
  moreover from m have "length rs = length calls"
    by (metis length_map)
  ultimately show ?thesis
    using False by (simp add: execute_tools_def)
qed

text \<open>
  Claim C4 fails on the code in one case. The registry holds the tool \<open>lookup\<close>, whose
  \<^verbatim>\<open>execute\<close> raises \<^verbatim>\<open>KeyError('k')\<close>. The first handler takes that exception too, so the
  result says that the tool was not found, where the claim requires the message
  \<^verbatim>\<open>Error executing tool: 'k'\<close> for a tool that is present and raises.
\<close>

theorem single_tool_key_error:
  "fst (execute_single_tool \<lparr>call_id = ''t1'', call_name = ''lookup'', call_input = []\<rparr>
          [''lookup'' \<mapsto> (\<lambda>input w. (Inl (Raise KeyError (quoted ''k'')), w))] ()) =
     Inr [(''type'', PyStr ''tool_result''), (''tool_use_id'', PyStr ''t1''),
          (''content'', PyStr (''Tool '' @ quoted ''lookup'' @ '' not found'')),
          (''is_error'', PyBool True)] \<and>
   ''Tool '' @ quoted ''lookup'' @ '' not found'' \<noteq> ''Error executing tool: '' @ quoted ''k''"
  by (simp add: execute_single_tool_def try_execute_def tool_result_def quoted_def)

section \<open>Properties of the connections\<close>

text \<open>
  Claim C5 fails on the code. The connection is open and the exit of the session context
  raises. The handler prints the failure and the attributes are cleared, but the exit of
  the transport context, which follows in the same \<^verbatim>\<open>try\<close> block, is never called.
\<close>

theorem aexit_session_failure:
  "aexit \<lparr>on_create_connection = None, on_create_rw_context = None, on_rw_enter = None,
          on_session_enter = None, on_initialize = None, on_list_tools = Inr [],
          on_session_exit = Some (Raise OtherException ''session is broken''), on_rw_exit = None\<rparr>
         \<lparr>session = True, rw_ctx = True, session_ctx = True\<rparr> =
     (\<lparr>session = False, rw_ctx = False, session_ctx = False\<rparr>,
      [SessionExit, PrintCleanupError ''Error during cleanup: session is broken''])"
  by (simp add: aexit_def aexit_try_def)

text \<open>
  Claim C6 fails on the code. One server is configured; its transport context and its
  session context are entered, and \<^verbatim>\<open>initialize\<close> raises. \<^verbatim>\<open>__aenter__\<close> passes the exception
  on without releasing anything, the exit stack has registered nothing, and the setup
  loop prints the failure: over the whole run the transport context is never exited.
  When \<^verbatim>\<open>initialize\<close> returns, the run exits the session context and the transport context
  once each.
\<close>

theorem handshake_failure_leaks_transport:
  "run_connections
     [\<lparr>on_create_connection = None, on_create_rw_context = None, on_rw_enter = None,
       on_session_enter = None, on_initialize = Some (Raise OtherException ''handshake failed''),
       on_list_tools = Inr [], on_session_exit = None, on_rw_exit = None\<rparr>] =
     [(0, CreateRwContext), (0, RwEnter), (0, SessionEnter), (0, Initialize),
      (0, PrintSetupError ''handshake failed'')] \<and>
   run_connections
     [\<lparr>on_create_connection = None, on_create_rw_context = None, on_rw_enter = None,
       on_session_enter = None, on_initialize = None,
       on_list_tools = Inr [], on_session_exit = None, on_rw_exit = None\<rparr>] =
     [(0, CreateRwContext), (0, RwEnter), (0, SessionEnter), (0, Initialize), (0, ListTools),
      (0, SessionExit), (0, RwExit)]"
  by (simp add: run_connections_def setup_one_def enter_async_context_def aenter_def
      MCPConnection_init_def aexit_def aexit_try_def)

section \<open>Properties of request assembly\<close>

lemma dict_get_merge:
  "distinct (map fst b) \<Longrightarrow>
   dict_get (dict_merge a b) k = (case dict_get b k of Some v \<Rightarrow> Some v | None \<Rightarrow> dict_get a k)"
proof (induction b arbitrary: a)
  case Nil
  show ?case by (simp add: dict_merge_def dict_get_def)
next
  case (Cons p b)
  obtain k0 v0 where p: "p = (k0, v0)" by (cases p)
  from Cons.prems p have d: "distinct (map fst b)" and n: "k0 \<notin> fst ` set b"
    by auto
  have m: "dict_merge a (p # b) = dict_merge (dict_set k0 v0 a) b"
    by (simp add: dict_merge_def p)
  from n have "dict_get b k0 = None"
    by (simp add: dict_get_def map_of_eq_None_iff)
  moreover have "dict_get (p # b) k = (if k = k0 then Some v0 else dict_get b k)"
    by (simp add: p dict_get_def)
  moreover note Cons.IH [OF d, of "dict_set k0 v0 a"]
  ultimately show ?case
    by (simp add: m dict_get_dict_set split: option.splits)
qed

lemma dict_get_pop:
  "dict_get (dict_pop k d) k' = (if k' = k then None else dict_get d k')"
  by (induction d) (auto simp: dict_pop_def dict_get_def)

text \<open>
  Claim C8. Let the message parameters be a dictionary (distinct keys) whose
  \<^verbatim>\<open>extra_headers\<close> entry, if there is one, is a dictionary. Then a request is assembled
  and, for every key but \<^verbatim>\<open>extra_headers\<close>, its keyword argument is the caller's value
  when the caller gave one and the computed default otherwise; \<^verbatim>\<open>extra_headers\<close> is no
  keyword argument unpacked from the parameters; and every header is the caller's value
  when the caller gave that header and the built-in default otherwise.
\<close>

theorem request_assembly:
  assumes "distinct (map fst (agent_message_params a))"
    and "\<forall>v. dict_get (agent_message_params a) ''extra_headers'' = Some v \<longrightarrow>
           (\<exists>d. v = PyDict d \<and> distinct (map fst d))"
  shows "\<exists>req. build_request a = Inr req \<and>
     (\<forall>k. k \<noteq> ''extra_headers'' \<longrightarrow>
        dict_get (params req) k =
          (case dict_get (agent_message_params a) k of
             Some v \<Rightarrow> Some v
           | None \<Rightarrow> dict_get (computed_params a) k)) \<and>
     dict_get (params req) ''extra_headers'' = None \<and>
     (\<forall>name. dict_get (extra_headers req) name =
        (case dict_get (agent_message_params a) ''extra_headers'' of
           Some (PyDict d) \<Rightarrow>
             (case dict_get d name of Some v \<Rightarrow> Some v | None \<Rightarrow> dict_get default_headers name)
         | _ \<Rightarrow> dict_get default_headers name))"
proof -
  have c: "dict_get (computed_params a) ''extra_headers'' = None"
    by (simp add: computed_params_def dict_get_def)
  have g: "dict_get (prepare_message_params a) k =
          (case dict_get (agent_message_params a) k of
             Some v \<Rightarrow> Some v
           | None \<Rightarrow> dict_get (computed_params a) k)" for k
    unfolding prepare_message_params_def using assms(1) by (rule dict_get_merge)
  show ?thesis
  proof (cases "dict_get (agent_message_params a) ''extra_headers''")
    case None
    with g [of "''extra_headers''"] c have "dict_get (prepare_message_params a) ''extra_headers'' = None"
      by simp
    then have "build_request a = Inr \<lparr>params = prepare_message_params a, extra_headers = default_headers\<rparr>"
      by (simp add: build_request_def)
    with None g c show ?thesis
      by simp
  next
    case (Some v)
    with assms(2) obtain d where v: "v = PyDict d" and d: "distinct (map fst d)"
      by blast
    from g [of "''extra_headers''"] Some v
    have "dict_get (prepare_message_params a) ''extra_headers'' = Some (PyDict d)"
      by simp
    then have "build_request a =
        Inr \<lparr>params = dict_pop ''extra_headers'' (prepare_message_params a),
             extra_headers = dict_merge default_headers d\<rparr>"
      by (simp add: build_request_def)
    with Some v g show ?thesis
      by (simp add: dict_get_pop dict_get_merge [OF d])
  qed
qed

text \<open>
  The theorem at an agent whose message parameters override the temperature, add
  \<^verbatim>\<open>top_k\<close> and give one custom header: the default header is kept beside it.
\<close>

theorem request_assembly_witness:
  "let a = \<lparr>agent_system = ''Be brief.'', agent_tools = [],
            agent_config = \<lparr>config_model = ''claude-sonnet-4-20250514'', config_max_tokens = 4096,
                             config_temperature = PyFloat 1 0, config_context_window_tokens = 180000\<rparr>,
            agent_message_params =
              [(''extra_headers'', PyDict [(''X-Test'', PyStr ''combined'')]),
               (''temperature'', PyFloat 1 (- 1)), (''top_k'', PyInt 5)],
            agent_history =
              add_message (MessageHistory_init ''claude-sonnet-4-20250514'' ''Be brief.'' 180000 3 True)
                ''user'' (Inl ''What is 1+1?'') None\<rparr>
   in distinct (map fst (agent_message_params a)) \<and>
      (\<forall>v. dict_get (agent_message_params a) ''extra_headers'' = Some v \<longrightarrow>
           (\<exists>d. v = PyDict d \<and> distinct (map fst d))) \<and>
      (\<exists>req. build_request a = Inr req \<and>
         dict_get (params req) ''temperature'' = Some (PyFloat 1 (- 1)) \<and>
         dict_get (params req) ''top_k'' = Some (PyInt 5) \<and>
         dict_get (params req) ''max_tokens'' = Some (PyInt 4096) \<and>
         dict_get (params req) ''extra_headers'' = None \<and>
         dict_get (extra_headers req) ''X-Test'' = Some (PyStr ''combined'') \<and>
         dict_get (extra_headers req) ''anthropic-beta'' = Some (PyStr ''code-execution-2025-05-22''))"
proof -
  define a where "a = \<lparr>agent_system = ''Be brief.'', agent_tools = [],
            agent_config = \<lparr>config_model = ''claude-sonnet-4-20250514'', config_max_tokens = 4096,
                             config_temperature = PyFloat 1 0, config_context_window_tokens = 180000\<rparr>,
            agent_message_params =
              [(''extra_headers'', PyDict [(''X-Test'', PyStr ''combined'')]),
               (''temperature'', PyFloat 1 (- 1)), (''top_k'', PyInt 5)],
            agent_history =
              add_message (MessageHistory_init ''claude-sonnet-4-20250514'' ''Be brief.'' 180000 3 True)
                ''user'' (Inl ''What is 1+1?'') None\<rparr>"
  have mp: "agent_message_params a =
              [(''extra_headers'', PyDict [(''X-Test'', PyStr ''combined'')]),
               (''temperature'', PyFloat 1 (- 1)), (''top_k'', PyInt 5)]"
    by (simp add: a_def)
  have d: "distinct (map fst (agent_message_params a))"
    by (simp add: mp)
  have e: "\<forall>v. dict_get (agent_message_params a) ''extra_headers'' = Some v \<longrightarrow>
           (\<exists>d. v = PyDict d \<and> distinct (map fst d))"
    by (simp add: mp dict_get_def)
  from request_assembly [OF d e] obtain req where
    r: "build_request a = Inr req" and
    p: "\<And>k. k \<noteq> ''extra_headers'' \<Longrightarrow>
        dict_get (params req) k =
          (case dict_get (agent_message_params a) k of
             Some v \<Rightarrow> Some v
           | None \<Rightarrow> dict_get (computed_params a) k)" and
    x: "dict_get (params req) ''extra_headers'' = None" and
    h: "\<And>name. dict_get (extra_headers req) name =
        (case dict_get (agent_message_params a) ''extra_headers'' of
           Some (PyDict d) \<Rightarrow>
             (case dict_get d name of Some v \<Rightarrow> Some v | None \<Rightarrow> dict_get default_headers name)
         | _ \<Rightarrow> dict_get default_headers name)"
    by blast
  have "dict_get (params req) ''temperature'' = Some (PyFloat 1 (- 1))"
    using p [of "''temperature''"] by (simp add: mp dict_get_def)
  moreover have "dict_get (params req) ''top_k'' = Some (PyInt 5)"
    using p [of "''top_k''"] by (simp add: mp dict_get_def)
  moreover have "dict_get (params req) ''max_tokens'' = Some (PyInt 4096)"
    using p [of "''max_tokens''"] by (simp add: mp dict_get_def computed_params_def a_def)
  moreover have "dict_get (extra_headers req) ''X-Test'' = Some (PyStr ''combined'')"
    using h [of "''X-Test''"] by (simp add: mp dict_get_def)
  moreover have "dict_get (extra_headers req) ''anthropic-beta'' = Some (PyStr ''code-execution-2025-05-22'')"
    using h [of "''anthropic-beta''"] by (simp add: mp dict_get_def default_headers_def)
  ultimately show ?thesis
    using d e r x unfolding Let_def a_def [symmetric] by blast
qed

end
